theory Spec2Isabelle
  imports Main
begin

section \<open>KoG2P: Korean graphemes to romanized phones (g2p.py)\<close>

text \<open>
  The program is Python 3 source. A Python \<open>str\<close> is a sequence of code points; the
  input text is modelled as the list of its code points (what \<open>ord\<close> returns for each
  position), unbounded Python integers as \<open>int\<close>. The phone strings the program builds
  consist of ASCII characters only and are modelled as \<open>string\<close>. Every exception the
  code can raise is a value of the type \<open>error\<close>.
\<close>

datatype error = IndexError | UnboundLocalError | ReError | Unsupported

type_synonym 'a result = "error + 'a"

definition bind :: "'a result \<Rightarrow> ('a \<Rightarrow> 'b result) \<Rightarrow> 'b result" where
  "bind r f = (case r of Inl e \<Rightarrow> Inl e | Inr x \<Rightarrow> f x)"

text \<open>
  Reading a table, \<open>xs[i]\<close>: Python counts an index below zero from the end of the
  list and raises IndexError outside \<open>-len(xs) \<le> i < len(xs)\<close>.
\<close>

definition item :: "'a list \<Rightarrow> int \<Rightarrow> 'a result" where
  "item xs i =
     (if 0 \<le> i \<and> i < int (length xs) then Inr (xs ! nat i)
      else if i < 0 \<and> - int (length xs) \<le> i then Inr (xs ! nat (int (length xs) + i))
      else Inl IndexError)"

subsection \<open>Character classification\<close>

definition isHangul :: "int \<Rightarrow> bool" where
  "isHangul charint = (charint \<ge> 44032 \<and> charint \<le> 55203)"

text \<open>\<open>checkCharType\<close>: 1 for the space character, 0 for a Hangul syllable, -1 otherwise.\<close>

fun checkCharType :: "int list \<Rightarrow> int list" where
  "checkCharType [] = []"
| "checkCharType (v # var_list) =
     (if v = 32 then 1
      else if isHangul v then 0
      else -1) # checkCharType var_list"

subsection \<open>The code tables and the decomposition of a syllable\<close>

definition ONS :: "string list" where
  "ONS = [''k0'', ''kk'', ''nn'', ''t0'', ''tt'', ''rr'', ''mm'', ''p0'', ''pp'',
          ''s0'', ''ss'', ''oh'', ''c0'', ''cc'', ''ch'', ''kh'', ''th'', ''ph'', ''h0'']"

definition NUC :: "string list" where
  "NUC = [''aa'', ''qq'', ''ya'', ''yq'', ''vv'', ''ee'', ''yv'', ''ye'', ''oo'', ''wa'',
          ''wq'', ''wo'', ''yo'', ''uu'', ''wv'', ''we'', ''wi'', ''yu'', ''xx'', ''xi'', ''ii'']"

definition COD :: "string list" where
  "COD = ['''', ''kf'', ''kk'', ''ks'', ''nf'', ''nc'', ''nh'', ''tf'',
          ''ll'', ''lk'', ''lm'', ''lb'', ''ls'', ''lt'', ''lp'', ''lh'',
          ''mf'', ''pf'', ''ps'', ''s0'', ''ss'', ''oh'', ''c0'', ''ch'',
          ''kh'', ''th'', ''ph'', ''h0'']"

text \<open>
  The three indices of the loop body of \<open>graph2phone\<close>, as the code computes them
  (one-based; the tables are read at \<open>iONS - 1\<close>, \<open>iNUC - 1\<close>, \<open>iCOD - 1\<close>):
  \<^verbatim>\<open>
    base = 44032
    df = int(integers[iElement]) - base
    iONS = int(math.floor(df / 588)) + 1
    iNUC = int(math.floor((df % 588) / 28)) + 1
    iCOD = int((df % 588) % 28) + 1
  \<close>
  \<open>math.floor(a / b)\<close> on two integers far below \<open>2^53\<close> is the integer quotient
  (the correctly rounded quotient of a non-multiple cannot reach the next integer), and
  Python's \<open>%\<close> with a positive divisor is \<open>mod\<close>.
\<close>

definition iONS :: "int \<Rightarrow> int" where
  "iONS c = (c - 44032) div 588 + 1"

definition iNUC :: "int \<Rightarrow> int" where
  "iNUC c = (((c - 44032) mod 588) div 28) + 1"

definition iCOD :: "int \<Rightarrow> int" where
  "iCOD c = (((c - 44032) mod 588) mod 28) + 1"

text \<open>
  The text one Hangul code point appends to \<open>phones\<close>:
  \<open>tmp = s1 + s2 + s3\<close> with \<open>s1 = '-' + ONS[iONS - 1]\<close>, \<open>s2 = NUC[iNUC - 1]\<close> and
  \<open>s3 = COD[iCOD - 1]\<close> (the empty coda is the empty string either way).
\<close>

definition syllable :: "int \<Rightarrow> string result" where
  "syllable c =
     bind (item ONS (iONS c - 1)) (\<lambda>ons.
     bind (item NUC (iNUC c - 1)) (\<lambda>s2.
     bind (item COD (iCOD c - 1)) (\<lambda>cod.
       let s1 = ''-'' @ ons; s3 = (if cod \<noteq> [] then cod else [])
       in Inr (s1 @ s2 @ s3))))"

subsection \<open>addPhoneBoundary\<close>

text \<open>
  \<^verbatim>\<open>
    ipos = 0
    newphones = ''
    while ipos + 2 <= len(phones):
        if phones[ipos] == u'-':
            newphones = newphones + phones[ipos]
            ipos += 1
        elif phones[ipos] == u' ':
            ipos += 1
        elif phones[ipos] == u'#':
            newphones = newphones + phones[ipos]
            ipos += 1
        newphones = newphones + phones[ipos] + phones[ipos + 1] + u','
        ipos += 2
    return newphones
  \<close>
  The loop runs on \<open>rest = phones[ipos:]\<close>: the guard is \<open>2 \<le> length rest\<close>, and after a
  marker or a space was skipped the two reads \<open>phones[ipos]\<close>, \<open>phones[ipos + 1]\<close> raise
  IndexError when fewer than two characters are left.
\<close>

function addPhoneBoundary_loop :: "string \<Rightarrow> string \<Rightarrow> string result" where
  "addPhoneBoundary_loop rest newphones =
     (if 2 \<le> length rest then
        (let c = hd rest;
             newphones1 = (if c = CHR ''-'' then newphones @ [c]
                           else if c = CHR '' '' then newphones
                           else if c = CHR ''#'' then newphones @ [c]
                           else newphones);
             rest1 = (if c = CHR ''-'' \<or> c = CHR '' '' \<or> c = CHR ''#'' then tl rest else rest)
         in (case rest1 of
               a # b # rest2 \<Rightarrow> addPhoneBoundary_loop rest2 (newphones1 @ [a, b, CHR '',''])
             | _ \<Rightarrow> Inl IndexError))
      else Inr newphones)"
  by pat_completeness auto
termination
proof (relation "measure (\<lambda>(rest, newphones). length rest)")
  fix rest newphones :: string and c newphones1 rest1 a b rest2 bs
  assume "rest1 = (if c = CHR ''-'' \<or> c = CHR '' '' \<or> c = CHR ''#'' then tl rest else rest)"
    and "rest1 = a # bs" and "bs = b # rest2"
  then have "length rest2 < length rest"
    by (cases rest) (auto split: if_splits)
  then show "((rest2, newphones1 @ [a, b, CHR '','']), (rest, newphones))
      \<in> measure (\<lambda>(rest, newphones). length rest)"
    by simp
qed simp

definition addPhoneBoundary :: "string \<Rightarrow> string result" where
  "addPhoneBoundary phones = addPhoneBoundary_loop phones []"

subsection \<open>Python's regular expressions, on the fragment the program uses\<close>

text \<open>
  Every text substitution of the program is a call of \<open>re.sub(pattern, repl, string)\<close>.
  The patterns are kept as the source writes them and compiled by \<open>compile\<close>; the
  matcher \<open>rmatch\<close> is the backtracking matcher of Python's \<open>re\<close> module: alternatives
  are tried from left to right, repetitions are greedy, a look-around is atomic and keeps
  the groups it captured, \<open>^\<close> matches at the start of the string only and \<open>$\<close> at its
  end or before a final newline (no flags are passed anywhere). A construct outside this
  fragment makes \<open>compile\<close> return \<open>Unsupported\<close>; a pattern \<open>re\<close> rejects gives
  \<open>ReError\<close>.
\<close>

datatype atom = Lit char | Dot | Cls "char list" | NonWord

datatype regex =
    Eps
  | Atm atom
  | Bol
  | Eol
  | Seq regex regex
  | Alt regex regex
  | Grp nat regex
  | Ahead regex
  | Behind nat regex
  | Opt regex
  | Star atom
  | Plus atom

definition newline :: char where
  "newline = CHR 0x0A"

definition backslash :: char where
  "backslash = CHR 0x5C"

definition is_digit :: "char \<Rightarrow> bool" where
  "is_digit c = (let n = (of_char c :: nat) in 48 \<le> n \<and> n \<le> 57)"

definition is_word :: "char \<Rightarrow> bool" where
  \<comment> \<open>\<open>\w\<close> on ASCII text: letters, digits and the underscore.\<close>
  "is_word c =
     (let n = (of_char c :: nat)
      in (48 \<le> n \<and> n \<le> 57) \<or> (65 \<le> n \<and> n \<le> 90) \<or> n = 95 \<or> (97 \<le> n \<and> n \<le> 122))"

fun atom_ok :: "atom \<Rightarrow> char \<Rightarrow> bool" where
  "atom_ok (Lit d) c = (c = d)"
| "atom_ok Dot c = (c \<noteq> newline)"
| "atom_ok (Cls cs) c = List.member cs c"
| "atom_ok NonWord c = (\<not> is_word c)"

text \<open>
  The matcher works on the string split at the current position: \<open>pre\<close> is the text
  before it, reversed, \<open>rest\<close> the text from it on. The list of \<open>kont\<close> is what
  remains to be matched after the current item: \<open>KClose n start\<close> ends group \<open>n\<close>, which
  began where the remaining text was \<open>start\<close>, and \<open>KAdvance start\<close> refuses an empty
  match (the search that follows an empty match at the same position). The captured
  groups are an association list, the latest capture first.
\<close>

datatype kont = KRe regex | KClose nat string | KAdvance string

type_synonym caps = "(nat \<times> string) list"

fun rsize :: "regex \<Rightarrow> nat" where
  "rsize (Seq r1 r2) = Suc (rsize r1 + rsize r2)"
| "rsize (Alt r1 r2) = Suc (rsize r1 + rsize r2)"
| "rsize (Grp n r) = Suc (Suc (rsize r))"
| "rsize (Ahead r) = Suc (rsize r)"
| "rsize (Behind w r) = Suc (rsize r)"
| "rsize (Opt r) = Suc (rsize r)"
| "rsize (Plus a) = 3"
| "rsize r = 1"

fun ksize :: "kont list \<Rightarrow> nat" where
  "ksize [] = 0"
| "ksize (KRe r # k) = rsize r + ksize k"
| "ksize (x # k) = Suc (ksize k)"

function rmatch :: "kont list \<Rightarrow> string \<Rightarrow> string \<Rightarrow> caps \<Rightarrow> (string \<times> string \<times> caps) option" where
  "rmatch [] pre rest caps = Some (pre, rest, caps)"
| "rmatch (KClose n start # k) pre rest caps =
     rmatch k pre rest ((n, take (length start - length rest) start) # caps)"
| "rmatch (KAdvance start # k) pre rest caps =
     (if length rest < length start then rmatch k pre rest caps else None)"
| "rmatch (KRe Eps # k) pre rest caps = rmatch k pre rest caps"
| "rmatch (KRe (Atm a) # k) pre rest caps =
     (case rest of
        [] \<Rightarrow> None
      | c # cs \<Rightarrow> if atom_ok a c then rmatch k (c # pre) cs caps else None)"
| "rmatch (KRe Bol # k) pre rest caps =
     (if pre = [] then rmatch k pre rest caps else None)"
| "rmatch (KRe Eol # k) pre rest caps =
     (if rest = [] \<or> rest = [newline] then rmatch k pre rest caps else None)"
| "rmatch (KRe (Seq r1 r2) # k) pre rest caps = rmatch (KRe r1 # KRe r2 # k) pre rest caps"
| "rmatch (KRe (Alt r1 r2) # k) pre rest caps =
     (case rmatch (KRe r1 # k) pre rest caps of
        Some x \<Rightarrow> Some x
      | None \<Rightarrow> rmatch (KRe r2 # k) pre rest caps)"
| "rmatch (KRe (Grp n r) # k) pre rest caps = rmatch (KRe r # KClose n rest # k) pre rest caps"
| "rmatch (KRe (Ahead r) # k) pre rest caps =
     (case rmatch [KRe r] pre rest caps of
        None \<Rightarrow> None
      | Some (pre', rest', caps') \<Rightarrow> rmatch k pre rest caps')"
| "rmatch (KRe (Behind w r) # k) pre rest caps =
     (if length pre < w then None
      else (case rmatch [KRe r] (drop w pre) (rev (take w pre) @ rest) caps of
              None \<Rightarrow> None
            | Some (pre', rest', caps') \<Rightarrow> rmatch k pre rest caps'))"
| "rmatch (KRe (Opt r) # k) pre rest caps =
     (case rmatch (KRe r # k) pre rest caps of
        Some x \<Rightarrow> Some x
      | None \<Rightarrow> rmatch k pre rest caps)"
| "rmatch (KRe (Star a) # k) pre rest caps =
     (case rest of
        [] \<Rightarrow> rmatch k pre rest caps
      | c # cs \<Rightarrow>
          if atom_ok a c then
            (case rmatch (KRe (Star a) # k) (c # pre) cs caps of
               Some x \<Rightarrow> Some x
             | None \<Rightarrow> rmatch k pre rest caps)
          else rmatch k pre rest caps)"
| "rmatch (KRe (Plus a) # k) pre rest caps =
     rmatch (KRe (Atm a) # KRe (Star a) # k) pre rest caps"
  by pat_completeness auto
termination
  by (relation "measures [\<lambda>(k, pre, rest, caps). ksize k, \<lambda>(k, pre, rest, caps). length rest]")
     auto

text \<open>
  The compiler reads the pattern from left to right with a stack of open groups. A frame
  holds the kind of the group, its finished alternatives and the items of its current
  alternative (both latest first). Groups are numbered by their opening parenthesis.
  A look-behind needs a pattern of fixed width, as in \<open>re\<close>.
\<close>

datatype gkind = GTop | GCap nat | GAhead | GBehind

type_synonym frame = "gkind \<times> regex list \<times> regex list"

fun mk_seq :: "regex list \<Rightarrow> regex" where
  "mk_seq [] = Eps"
| "mk_seq [r] = r"
| "mk_seq (r # rs) = Seq r (mk_seq rs)"

fun mk_alt :: "regex list \<Rightarrow> regex" where
  "mk_alt [] = Eps"
| "mk_alt [r] = r"
| "mk_alt (r # rs) = Alt r (mk_alt rs)"

definition frame_regex :: "regex list \<Rightarrow> regex list \<Rightarrow> regex" where
  "frame_regex alts cur = mk_alt (rev (mk_seq (rev cur) # alts))"

fun width :: "regex \<Rightarrow> nat option" where
  "width Eps = Some 0"
| "width (Atm a) = Some 1"
| "width Bol = Some 0"
| "width Eol = Some 0"
| "width (Seq r1 r2) =
     (case width r1 of
        None \<Rightarrow> None
      | Some w1 \<Rightarrow> (case width r2 of None \<Rightarrow> None | Some w2 \<Rightarrow> Some (w1 + w2)))"
| "width (Alt r1 r2) =
     (case width r1 of
        None \<Rightarrow> None
      | Some w1 \<Rightarrow> (case width r2 of None \<Rightarrow> None | Some w2 \<Rightarrow> if w1 = w2 then Some w1 else None))"
| "width (Grp n r) = width r"
| "width (Ahead r) = Some 0"
| "width (Behind w r) = Some 0"
| "width (Opt r) = None"
| "width (Star a) = None"
| "width (Plus a) = None"

fun wrap :: "gkind \<Rightarrow> regex \<Rightarrow> regex result" where
  "wrap GTop r = Inl ReError"
| "wrap (GCap n) r = Inr (Grp n r)"
| "wrap GAhead r = Inr (Ahead r)"
| "wrap GBehind r = (case width r of None \<Rightarrow> Inl ReError | Some w \<Rightarrow> Inr (Behind w r))"

fun quantifiable :: "regex \<Rightarrow> bool" where
  "quantifiable (Atm a) = True"
| "quantifiable (Grp n r) = True"
| "quantifiable r = False"

definition class_ok :: "string \<Rightarrow> bool" where
  \<comment> \<open>a character set without negation, escape, or range: a hyphen stands first or last\<close>
  "class_ok body =
     (body \<noteq> [] \<and> hd body \<noteq> CHR ''^'' \<and> \<not> List.member body backslash
      \<and> \<not> List.member body CHR ''['' \<and> \<not> List.member (butlast (tl body)) CHR ''-'')"

function parse :: "string \<Rightarrow> frame list \<Rightarrow> nat \<Rightarrow> (regex \<times> nat) result" where
  "parse [] st n =
     (case st of
        [(GTop, alts, cur)] \<Rightarrow> Inr (frame_regex alts cur, n)
      | _ \<Rightarrow> Inl ReError)"
| "parse (c # cs) [] n = Inl ReError"
| "parse (c # cs) ((kind, alts, cur) # up) n =
     (if c = CHR ''('' then
        (if take 3 cs = ''?<='' then parse (drop 3 cs) ((GBehind, [], []) # (kind, alts, cur) # up) n
         else if take 2 cs = ''?='' then parse (drop 2 cs) ((GAhead, [], []) # (kind, alts, cur) # up) n
         else if take 1 cs = ''?'' then Inl Unsupported
         else parse cs ((GCap (Suc n), [], []) # (kind, alts, cur) # up) (Suc n))
      else if c = CHR '')'' then
        (case up of
           [] \<Rightarrow> Inl ReError
         | (kind', alts', cur') # up' \<Rightarrow>
             (case wrap kind (frame_regex alts cur) of
                Inl e \<Rightarrow> Inl e
              | Inr r \<Rightarrow> parse cs ((kind', alts', r # cur') # up') n))
      else if c = CHR ''|'' then parse cs ((kind, mk_seq (rev cur) # alts, []) # up) n
      else if c = CHR ''?'' then
        (case cur of
           [] \<Rightarrow> Inl ReError
         | r # cur' \<Rightarrow>
             if quantifiable r then parse cs ((kind, alts, Opt r # cur') # up) n
             else Inl Unsupported)
      else if c = CHR ''+'' then
        (case cur of
           [] \<Rightarrow> Inl ReError
         | Atm a # cur' \<Rightarrow> parse cs ((kind, alts, Plus a # cur') # up) n
         | _ \<Rightarrow> Inl Unsupported)
      else if c = CHR ''*'' then
        (case cur of
           [] \<Rightarrow> Inl ReError
         | Atm a # cur' \<Rightarrow> parse cs ((kind, alts, Star a # cur') # up) n
         | _ \<Rightarrow> Inl Unsupported)
      else if c = CHR ''['' then
        (let body = takeWhile (\<lambda>x. x \<noteq> CHR '']'') cs
         in if length body = length cs then Inl ReError
            else if class_ok body then
              parse (drop (Suc (length body)) cs) ((kind, alts, Atm (Cls body) # cur) # up) n
            else Inl Unsupported)
      else if c = backslash then
        (case cs of
           [] \<Rightarrow> Inl ReError
         | d # cs' \<Rightarrow>
             if d = CHR ''W'' then parse cs' ((kind, alts, Atm NonWord # cur) # up) n
             else if d = CHR ''-'' then parse cs' ((kind, alts, Atm (Lit d) # cur) # up) n
             else Inl Unsupported)
      else if c = CHR ''.'' then parse cs ((kind, alts, Atm Dot # cur) # up) n
      else if c = CHR ''^'' then parse cs ((kind, alts, Bol # cur) # up) n
      else if c = CHR ''$'' then parse cs ((kind, alts, Eol # cur) # up) n
      else if c = CHR ''{'' then Inl Unsupported
      else parse cs ((kind, alts, Atm (Lit c) # cur) # up) n)"
  by pat_completeness auto
termination
  by (relation "measure (\<lambda>(p, st, n). length p)") auto

definition compile :: "string \<Rightarrow> (regex \<times> nat) result" where
  "compile pattern = parse pattern [(GTop, [], [])] 0"

text \<open>
  The replacement template: \<open>\1\<close> to \<open>\9\<close> and \<open>\g<1>\<close> to \<open>\g<9>\<close> stand for a group;
  a group that took no part in the match expands to the empty string.
\<close>

datatype titem = TLit char | TGrp nat

definition digit_val :: "char \<Rightarrow> nat" where
  "digit_val c = of_char c - 48"

fun parse_template :: "string \<Rightarrow> titem list result" where
  "parse_template [] = Inr []"
| "parse_template (c # cs) =
     (if c = backslash then
        (case cs of
           [] \<Rightarrow> Inl ReError
         | d # cs' \<Rightarrow>
             if is_digit d \<and> d \<noteq> CHR ''0'' then
               (if cs' \<noteq> [] \<and> is_digit (hd cs') then Inl Unsupported
                else (case parse_template cs' of
                        Inl e \<Rightarrow> Inl e
                      | Inr t \<Rightarrow> Inr (TGrp (digit_val d) # t)))
             else if d = CHR ''g'' then
               (case cs' of
                  a # e # b # cs'' \<Rightarrow>
                    if a = CHR ''<'' \<and> is_digit e \<and> e \<noteq> CHR ''0'' \<and> b = CHR ''>'' then
                      (case parse_template cs'' of
                         Inl e' \<Rightarrow> Inl e'
                       | Inr t \<Rightarrow> Inr (TGrp (digit_val e) # t))
                    else Inl Unsupported
                | _ \<Rightarrow> Inl Unsupported)
             else Inl Unsupported)
      else (case parse_template cs of
              Inl e \<Rightarrow> Inl e
            | Inr t \<Rightarrow> Inr (TLit c # t)))"

fun group_ok :: "nat \<Rightarrow> titem \<Rightarrow> bool" where
  "group_ok ng (TLit c) = True"
| "group_ok ng (TGrp n) = (n \<le> ng)"

fun expand :: "titem list \<Rightarrow> caps \<Rightarrow> string" where
  "expand [] caps = []"
| "expand (TLit c # t) caps = c # expand t caps"
| "expand (TGrp n # t) caps =
     (case map_of caps n of None \<Rightarrow> [] | Some g \<Rightarrow> g) @ expand t caps"

text \<open>
  \<open>re.sub\<close> scans from left to right: at each position the first match in the matcher's
  order is replaced and the scan goes on behind it; where nothing matches one character
  is copied. After an empty match the search is repeated at the same position with
  \<open>adv\<close> set, where \<open>KAdvance\<close> refuses a match that consumed no character. The
  recursion descends on the length of the remaining text, then on the flag.
\<close>

function sub_loop :: "regex \<Rightarrow> titem list \<Rightarrow> string \<Rightarrow> string \<Rightarrow> bool \<Rightarrow> string" where
  "sub_loop rx tpl pre rest adv =
     (case rmatch (KRe rx # (if adv then [KAdvance rest] else [])) pre rest [] of
        None \<Rightarrow>
          (case rest of
             [] \<Rightarrow> []
           | c # cs \<Rightarrow> c # sub_loop rx tpl (c # pre) cs False)
      | Some (pre', rest', caps) \<Rightarrow>
          expand tpl caps @
          (if length rest' < length rest then sub_loop rx tpl pre' rest' False
           else if adv then []
           else sub_loop rx tpl pre rest True))"
  by pat_completeness auto
termination
  by (relation "measures [\<lambda>(rx, tpl, pre, rest, adv). length rest,
                          \<lambda>(rx, tpl, pre, rest, adv). if adv then 0 else 1]") auto

definition re_sub :: "string \<Rightarrow> string \<Rightarrow> string \<Rightarrow> string result" where
  "re_sub pattern repl s =
     (case compile pattern of
        Inl e \<Rightarrow> Inl e
      | Inr (rx, ng) \<Rightarrow>
          (case parse_template repl of
             Inl e \<Rightarrow> Inl e
           | Inr tpl \<Rightarrow>
               if list_all (group_ok ng) tpl then Inr (sub_loop rx tpl [] s False)
               else Inl ReError))"

subsection \<open>graph2phone\<close>

text \<open>
  The input \<open>graphs\<close> is a Python 3 \<open>str\<close>, which has no \<open>decode\<close>: the \<open>try\<close> block
  falls through, and \<open>integers\<close> is the list of the code points. The loop reads
  \<open>integers[iElement]\<close> and \<open>idx[iElement]\<close> side by side:
  \<^verbatim>\<open>
    idx = checkCharType(integers)
    iElement = 0
    while iElement < len(integers):
        if idx[iElement] == 0:  # not space characters
            ...
            tmp = s1 + s2 + s3
            phones = phones + tmp
        elif idx[iElement] == 1:  # space character
            tmp = '#'
            phones = phones + tmp
        phones = re.sub('-(oh)', '-', phones)
        iElement += 1
  \<close>
\<close>

fun graph2phone_loop :: "(int \<times> int) list \<Rightarrow> string \<Rightarrow> string result" where
  "graph2phone_loop [] phones = Inr phones"
| "graph2phone_loop ((c, t) # rest) phones =
     (case (if t = 0 then bind (syllable c) (\<lambda>tmp. Inr (phones @ tmp))
            else if t = 1 then Inr (phones @ ''#'')
            else Inr phones) of
        Inl e \<Rightarrow> Inl e
      | Inr phones1 \<Rightarrow>
          (case re_sub ''-(oh)'' ''-'' phones1 of
             Inl e \<Rightarrow> Inl e
           | Inr phones2 \<Rightarrow> graph2phone_loop rest phones2))"

text \<open>
  After the loop:
  \<^verbatim>\<open>
    phones = re.sub('^oh', '', phones)
    phones = re.sub('-(oh)', '', phones)
    phones = re.sub('oh-', 'ng-', phones)
    phones = re.sub('oh([# ]|$)', 'ng', phones)
    phones = re.sub('(\W+)\-', '\\1', phones)
    phones = re.sub('\W+$', '', phones)
    phones = re.sub('^\-', '', phones)
    return phones
  \<close>
  A backslash cannot stand inside a string literal here, so it is spliced in as the
  character \<open>backslash\<close>.
\<close>

definition graph2phone :: "int list \<Rightarrow> string result" where
  "graph2phone graphs =
     (let integers = graphs; idx = checkCharType integers in
      bind (graph2phone_loop (zip integers idx) []) (\<lambda>phones.
      bind (re_sub ''^oh'' '''' phones) (\<lambda>phones.
      bind (re_sub ''-(oh)'' '''' phones) (\<lambda>phones.
      bind (re_sub ''oh-'' ''ng-'' phones) (\<lambda>phones.
      bind (re_sub ''oh([# ]|$)'' ''ng'' phones) (\<lambda>phones.
      bind (re_sub (''('' @ [backslash] @ ''W+)'' @ [backslash] @ ''-'') ([backslash] @ ''1'') phones) (\<lambda>phones.
      bind (re_sub ([backslash] @ ''W+$'') '''' phones) (\<lambda>phones.
      re_sub (''^'' @ [backslash] @ ''-'') '''' phones))))))))"

subsection \<open>phone2prono and graph2prono\<close>

text \<open>
  \<^verbatim>\<open>
    for pattern, replacement in zip(rule_in, rule_out):
        phones = re.sub(pattern, replacement, phones)
        prono = phones
    return prono
  \<close>
  With no rule at all \<open>prono\<close> is never bound and the \<open>return\<close> raises.
\<close>

fun apply_rules :: "(string \<times> string) list \<Rightarrow> string \<Rightarrow> string result" where
  "apply_rules [] phones = Inr phones"
| "apply_rules ((pattern, replacement) # rules) phones =
     (case re_sub pattern replacement phones of
        Inl e \<Rightarrow> Inl e
      | Inr phones' \<Rightarrow> apply_rules rules phones')"

definition phone2prono :: "string \<Rightarrow> string list \<Rightarrow> string list \<Rightarrow> string result" where
  "phone2prono phones rule_in rule_out =
     (if zip rule_in rule_out = [] then Inl UnboundLocalError
      else apply_rules (zip rule_in rule_out) phones)"

text \<open>
  The body of the loop of \<open>graph2prono\<close> up to the comparison:
  \<^verbatim>\<open>
    prono_new = phone2prono(re.sub(u' ', u',', prono_prev + u','), rule_in, rule_out)
    prono_new = re.sub(u',', u' ', prono_new)
    prono_new = re.sub(u' $', u'', prono_new)
  \<close>
\<close>

definition next_prono :: "string list \<Rightarrow> string list \<Rightarrow> string \<Rightarrow> string result" where
  "next_prono rule_in rule_out prono_prev =
     bind (re_sub '' '' '','' (prono_prev @ '','')) (\<lambda>phones.
     bind (phone2prono phones rule_in rule_out) (\<lambda>prono_new.
     bind (re_sub '','' '' '' prono_new) (\<lambda>prono_new.
     re_sub '' $'' '''' prono_new)))"

text \<open>
  \<^verbatim>\<open>
    while not identical:
        prono_new = ...
        if re.sub(u'-', u'', prono_prev) == re.sub(u'-', u'', prono_new):
            identical = True
            prono_new = re.sub(u'-', u'', prono_new)
        else:
            loop_cnt += 1
            prono_prev = prono_new
    return prono_new
  \<close>
  The loop has no bound: a run that never leaves it has the value \<open>None\<close>.
\<close>

partial_function (option) graph2prono_loop ::
  "string list \<Rightarrow> string list \<Rightarrow> string \<Rightarrow> string result option" where
  "graph2prono_loop rule_in rule_out prono_prev =
     (case next_prono rule_in rule_out prono_prev of
        Inl e \<Rightarrow> Some (Inl e)
      | Inr prono_new \<Rightarrow>
          (case re_sub ''-'' '''' prono_prev of
             Inl e \<Rightarrow> Some (Inl e)
           | Inr stripped_prev \<Rightarrow>
               (case re_sub ''-'' '''' prono_new of
                  Inl e \<Rightarrow> Some (Inl e)
                | Inr stripped_new \<Rightarrow>
                    if stripped_prev = stripped_new then Some (re_sub ''-'' '''' prono_new)
                    else graph2prono_loop rule_in rule_out prono_new)))"

declare graph2prono_loop.simps [code]

text \<open>
  \<^verbatim>\<open>
    romanized = graph2phone(graphs)
    romanized_bd = addPhoneBoundary(romanized)
    prono = phone2prono(romanized_bd, rule_in, rule_out)
    prono = re.sub(u',', u' ', prono)
    prono = re.sub(u' $', u'', prono)
    prono = re.sub(u'#', u'-', prono)
    prono = re.sub(u'-+', u'-', prono)
    prono_prev = prono
  \<close>
\<close>

definition first_prono :: "int list \<Rightarrow> string list \<Rightarrow> string list \<Rightarrow> string result" where
  "first_prono graphs rule_in rule_out =
     bind (graph2phone graphs) (\<lambda>romanized.
     bind (addPhoneBoundary romanized) (\<lambda>romanized_bd.
     bind (phone2prono romanized_bd rule_in rule_out) (\<lambda>prono.
     bind (re_sub '','' '' '' prono) (\<lambda>prono.
     bind (re_sub '' $'' '''' prono) (\<lambda>prono.
     bind (re_sub ''#'' ''-'' prono) (\<lambda>prono.
     re_sub ''-+'' ''-'' prono))))))"

definition graph2prono :: "int list \<Rightarrow> string list \<Rightarrow> string list \<Rightarrow> string result option" where
  "graph2prono graphs rule_in rule_out =
     (case first_prono graphs rule_in rule_out of
        Inl e \<Rightarrow> Some (Inl e)
      | Inr prono \<Rightarrow> graph2prono_loop rule_in rule_out prono)"

subsection \<open>runKoG2P: the rule table\<close>

definition rule_in :: "string list" where
  "rule_in =
    [''ii,ll,[#-]y([aeoquv]),'', ''(h0,aa|t0,xx),ll,-ii,ll,'', ''s0,vv,ll,-ii,kf,'',
     ''mm,uu,ll,-k0,oo,-k0,ii,'', ''s0,ii,ll,-s0,ii,ll'', ''k0,ii,-s0,xx,lk,'',
     ''c0,vv,ll,-ya,kf,'', ''k0,xx,mf,-yo,-ii,ll,'', ''lt,-ii,'',
     ''(?<=nn,vv,)lb,(?=-(c0,(uu|vv),kf|t0,(uu|vv),ng))'', ''(?<=s0,ii,)lh,-c0,(?=xx,ng)'',
     ''t0,aa,lk,'', ''(wq|we|oo),nf,-k0,aa,c0,'', ''mm,aa,tf,-h0,yv,ng,'', ''k0,vv,th,-oo,s0,'',
     ''c0,uu,ll,-nn,vv,mf,-k0,ii,'', ''h0,oo,th,-ii,-p0,uu,ll,'', ''s0,aa,ks,-ii,ll,'',
     ''mm,qq,nf,-ii,pf,'', ''kk,oo,ch,-ii,ph,'', ''nn,qq,-p0,oo,kf,-ya,kf,'',
     ''h0,aa,nf,-yv,-rr,xx,mf,'', ''nn,aa,mf,-c0,oo,nf,-yv,-p0,ii,'',
     ''s0,ii,nf,-yv,-s0,vv,ng,'', ''s0,qq,kf,-yv,nf,-ph,ii,ll,'', ''t0,aa,mf,-yo,'',
     ''nn,uu,nf,-yo,-k0,ii,'', ''vv,pf,-yo,ng,'', ''s0,ii,kf,-yo,ng,-yu,'',
     ''nf,-yu,nf,-rr,ii,'', ''(c0|s0),(aa|oo|uu),ll,-ii,(ph|p0|pf),'',
     ''(?=(^|#))h0,aa,nf,-ii,ll,'', ''(?=(^|#))mm,aa,kf,-ii,ll,'',
     ''mm,oo,ll,-s0,aa,ng,-s0,ii,kf,'', ''oo,s0,#ii,pf,'', ''(nf|ll),-yv,-s0,vv,-s0,'',
     ''(ng|mf|nf),-y([aeoquv]),'', ''(wv|ii),ll,-y([aeoquv]),'', ''ll,-y([aeoquv]),'',
     ''ii,ll,-c0,vv,ll,'', ''(th|tf|s0),-y([aeoquv]),'', ''(<=^|#)mm,aa,kf,-ii,ll'',
     ''k0,uu,-k0,xx,nf,-rr,yu,'', ''k0,aa,ll,-([ct])0,xx,ng,'', ''p0,aa,ll,-t0,oo,ng,'',
     ''c0,vv,ll,-t0,oo,'', ''mm,aa,ll,-s0,aa,ll,'', ''p0,uu,ll,-s0,'', ''ii,ll,-s0,ii,'',
     ''p0,aa,ll,-c0,vv,nf,'', ''(?<=(s0,ii,nf,|s0,aa,mf,)-)(c|k|t)0,'', ''(?<=k0,ii,mf,-)p0,'',
     ''(?<=t0,vv,-t0,xx,mf,-)c0,'', ''c0,aa,mf,-c0,aa,-rr,ii,'',
     ''(?<=(ng|ll),-)c0,(?=uu,ll,-k0,ii)'', ''(?<=(nf|ll),-)p0,vv,pf,'',
     ''(?<=(nf|tf),-)p0,(?=aa,-rr,aa,mf)'', ''p0,aa,-rr,aa,mf,-k0,yv,ll,'',
     ''(?<=(mf|kf),-)p0,(?=aa,pf,)'', ''(?<=nn,uu,nf,-)t0,'', ''mm,aa,kf,-yv,mf,'',
     ''p0,aa,lb,-(t|k)0,'', ''p0,aa,lb,-nn,'', ''nn,vv,lb,-(t|k)0,'',
     ''mm,(aa|vv),s0,-ii,ss,-t0,aa,'', ''mm,(aa|vv),s0,-vv,ps,-t0,aa,'',
     ''c0,vv,c0,-vv,-mm,ii,'', ''h0,vv,s0,-uu,s0,-xx,mf,'', ''k0,aa,ps,-vv,-ch,ii,'',
     ''k0,aa,ps,-ii,ss,-nn,xx,nf,'', ''c0,vv,lm,-c0,ii,'', ''oo,lm,-k0,(?=[iy])'',
     ''k0,uu,lm,-k0,ii,-t0,aa,'', ''(nn|k0|h0),aa,ll,-(p|s|c|k|t)0,'', ''ch,vv,s0,-ii,nf,'',
     ''(?<=(mf|nf),-)ii,-p0,uu,ll,'', ''(?<=(nf|ll),-)k0,oo,-rr,ii,'', ''(?<=(nf|ll),-)s0,qq,'',
     ''(?<=(nf|ll),-)c0,qq,-c0,uu,'', ''k0,ii,ll,-k0,aa,'', ''mm,uu,ll,-t0,oo,ng,-ii,'',
     ''mm,uu,ll,-c0,'', ''(?<=(nf|ll),-)p0,aa,-t0,aa,kf,'', ''(?<=(nf|ll),-)s0,oo,kf,'',
     ''(?<=s0,uu,ll,-)(c|p|t)0,'', ''k0,aa,ng,-k0,aa,'', ''(?<=(ng|mf),-)t0,aa,ll,'',
     ''t0,xx,ng,-p0,uu,ll,'', ''ch,aa,ng,-s0,aa,ll,'', ''(?<=(ll|ng),-)c0,uu,ll,-k0,ii,'',
     ''aa,nf,-k0,oo,'', ''(?<=kk,yv,-aa,nf,-)(t|c)0,'', ''ii,-c0,uu,kf,-ii,-c0,uu,kf,'',
     ''ya,-k0,xx,mf,-ya,-k0,xx,mf,'', ''p0,ee,-k0,qq,s0,-ii,s0,'', ''kk,qq,s0,-ii,ph,'',
     ''nn,aa,-mm,uu,s0,-ii,ph,'', ''qq,s0,-yv,ll,'', ''t0,wi,s0,-(?=[aeqiouyvwx])'',
     ''nn,xx,c0,-yv,-rr,xx,mf,'', ''t0,ii,-k0,xx,tf,-(ii|xx|ee),'',
     ''(c0|ch|th|h0),ii,-xx,(c0|ch|th|h0),-(ii|xx|ee),'', ''ph,ii,-xx,ph,-(ii|xx|ee),'',
     ''kh,ii,-xx,kh,-(ii|xx|ee),'', ''l(b|p),-h0,'', ''nh,-(c|k|t)0,'', ''lh,-(c|k|t)0,'',
     ''lk,-h0,'', ''nc,-h0,'',
     ''(k0,aa,|k0,uu,|k0,vv,|oo,|p0,aa,|nn,aa,|nn,xx,|p0,uu,|^ii,|-,ii,mm,aa,|mm,uu,|(^|-,)vv,)lk,-(t0|c0|s0),'',
     ''(k0,aa,|k0,uu,|k0,vv,|vv,|oo,|mm,aa,|p0,aa,|nn,aa,|nn,xx,|mm,uu,|p0,uu,|^ii,|-,ii,)lk,-k0,'',
     ''nh,-(k|t|c)0,'', ''nh,-s0,'', ''nh,-nn,'', ''nh,-(?=[aeqiouyvwx])'', ''lh,-nn,'',
     ''lh,-(k|t|c)0,'', ''lh,-s0,'', ''lh,-(?=[aeqiouyvwx])'', ''nc,-([ktsc])0,'',
     ''(c0,vv,|c0,ii,|k0,uu,|t0,aa,|(^|-,)oo,|k0,oo,)lm,-([ktsc])0,'',
     ''(p0,aa,|tt,vv,|(^|-,)yv,|nn,vv,|(^|-,)ya,|cc,aa,)lb,-([ktsc])0,'',
     ''h0,(aa|uu),lt,-nn,'', ''h0,(aa|uu),lt,-([ktsc])0,'', ''lk,-(c|k|p|s|t)0,'',
     ''l(b|p),-p0,'', ''s0,-p0,'', ''l(b|t),-(c|k|s|t|p)0,'', ''lp,-(c|k|s|t)0,'',
     ''(c[h0]|s[s0]|t[fh]),-(c|k|s|t)0,'', ''k[fhks],-(c|k|p|s|t)0,'',
     ''p[sfh],-(c|k|p|s|t)0,'', ''(?<=(kf|kh|ks|ss|c0|ch|tf|th),-)p0,'', ''h0,-s0,'',
     ''nh,-s0,'', ''lh,-s0,'', ''(ks|lk),(?=(#|$|-[ptkshcmnr]))'',
     ''n[ch],(?=(#|$|-[ptkshcmnr]))'', ''l[bsth],(?=(#|$|-[ptkshcmnr]))'',
     ''lm,(?=(#|$|-[ptkshcmnr]))'', ''(ps|lp),(?=(#|$|-[ptkshcmnr]))'',
     ''([kp])s,-(?=[aeqiouyvwx])'', ''ls,-(?=[aeqiouyvwx])'', ''nc,-(?=[aeqiouyvwx])'',
     ''lk,-(?=[aeqiouyvwx])'', ''lm,-(?=[aeqiouyvwx])'', ''lb,-(?=[aeqiouyvwx])'',
     ''l([tp]),-(?=[aeqiouyvwx])'', ''(?<=[pk])0,-rr,'', ''(c0|ch|s0|ss|tf|nh|h0),-nn,'',
     ''nc,-(p|t|k)0,'', ''nc,(?=-[ptkshcmnr])'', ''lm,-k0,'', ''lm,(?=-[ptkshcmnr])'',
     ''k[fhks],(?=-(nn|mm),)'', ''lk,(?=-(nn|mm),)'', ''p[sfh],(?=-(nn|mm),)'',
     ''l[bp],(?=-(nn|mm),)'', ''(?<=(mf|ng|pf|kf),-)rr,'', ''(c0|ch|s0|ss|tf|nh|h0),(?=-mm,)'',
     ''ll,-(?=y)'', ''(nf|ll),-rr,'', ''l[lht],-nn,'', ''tf,-(?=[iy])'', ''th,-(?=[iy])'',
     ''tf,-h0,(?=[iy])'', ''(p|k)f,-h0,'', ''h0,-(c|k|t)0,'', ''(tf|th|s0),(-|#)h0,'',
     ''(s0|ss|kk|p0|ph|pp|t0|th|tt|c0|ch|kh|kk|k0|mm|nn),-(?=[aeqiouyvwx])'',
     ''nh,-(?=[aeqiouyvwx])'', ''(s0|ss|c0|ch|th),(?=-[ptkshcmnr])'', ''h0,-(?=[aeqiouyvwx])'',
     ''lh,-?(?=[aeqiouyvwx])'', ''(p|t|k)f,-?(?=[aeqiouyvwx])'', ''(m|n)f,-?(?=[aeqiouyvwx])'',
     ''(s0|ss|c0|ch|th),(?=-|#|$)'', ''(kh|kk|ks|lk),(?=-|#|$|[ptkshcmnr])'',
     ''(ph|lp|ps),(?=-|#|$|[ptkshcmnr])'', ''(?<=[ptkshcmnr].),-(?=[aeqiouyvwx])'',
     ''l[bhstp],(?=-|#|$|[ptkshcmnr])'', ''nh,(?=-|#|$|[ptkshcmnr])'',
     ''(?<=[aeqiouyvwx].,)ll,-(?=[aeqiouyvwx])'', ''ll,-ll,'']"

definition rule_out :: "string list" where
  "rule_out =
    [''ii,ll,rr,y'' @ [backslash] @ ''1,'', [backslash] @ ''1,ll,rr,ii,ll,'',
     ''s0,vv,ll,rr,ii,kf,'', ''mm,uu,ll,kk,oo,k0,ii,'', ''s0,ii,ll,s0,ii,ll'',
     ''k0,ii,s0,xx,kf,'', ''c0,vv,rr,ya,kf,'', ''k0,xx,-mm,yo,-ii,ll,'', ''ll,-ch,ii,'',
     ''pf,'', ''ll,cc,'', ''t0,aa,kf,'', [backslash] @ ''1,nf,k0,aa,tf,'', ''mm,aa,th,yv,ng,'',
     ''k0,vv,t0,oo,tf,'', ''c0,uu,ll,rr,vv,mf,-kk,ii,'', ''h0,oo,nf,nn,ii,p0,uu,ll,'',
     ''s0,aa,ng,nn,ii,ll,'', ''mm,qq,nf,nn,ii,pf,'', ''kk,oo,nf,nn,ii,pf,'',
     ''nn,qq,p0,oo,ng,nn,ya,kf,'', ''h0,aa,nf,nn,yv,rr,xx,mf,'',
     ''nn,aa,mf,c0,oo,nf,nn,yv,p0,ii,'', ''s0,ii,nf,nn,yv,s0,vv,ng,'',
     ''s0,qq,ng,nn,yv,nf,ph,ii,ll,'', ''t0,aa,mf,nn,yo,'', ''nn,uu,nf,nn,yo,k0,ii,'',
     ''vv,mf,nn,yo,ng,'', ''s0,ii,k0,yo,ng,nn,yu,'', ''nf,nn,yu,ll,rr,ii,'',
     [backslash] @ ''1,'' @ [backslash] @ ''2,ll,rr,ii,pf,'', ''h0,aa,nf,nn,ii,ll,'',
     ''mm,aa,ng,nn,ii,ll,'', ''mm,oo,ll,ss,aa,ng,s0,ii,kf,'', ''oo,nf,nn,ii,pf,'',
     [backslash] @ ''1,nn,yv,s0,vv,tf,'', [backslash] @ ''1,nn,y'' @ [backslash] @ ''2,'',
     [backslash] @ ''1,rr,y'' @ [backslash] @ ''2,'', ''ll,rr,y'' @ [backslash] @ ''1,'',
     ''ii,ll,cc,vv,ll,'', ''nf,-nn,y'' @ [backslash] @ ''2,'', ''mm,aa,ng,nn,ii,ll'',
     ''k0,uu,k0,xx,nf,nn,yu,'',
     ''k0,aa,ll,'' @ [backslash] @ ''1'' @ [backslash] @ ''1,xx,ng,'', ''p0,aa,ll,tt,oo,ng,'',
     ''c0,vv,ll,tt,oo,'', ''mm,aa,ll,ss,aa,ll,'', ''p0,uu,ll,ss,'', ''ii,ll,ss,ii,'',
     ''p0,aa,ll,cc,vv,nf,'', [backslash] @ ''2'' @ [backslash] @ ''2,'', ''pp,'', ''cc,'',
     ''c0,aa,mf,cc,aa,rr,ii,'', ''cc,'', ''pp,vv,pf,'', ''pp,'', ''p0,aa,rr,aa,mf,kk,yv,ll,'',
     ''pp,'', ''tt,'', ''mm,aa,ng,nn,yv,mf,'',
     ''p0,aa,pf,'' @ [backslash] @ ''1'' @ [backslash] @ ''1,'', ''p0,aa,mf,nn,'',
     ''nn,vv,ll,'' @ [backslash] @ ''1'' @ [backslash] @ ''1,'',
     ''mm,'' @ [backslash] @ ''1,t0,ii,tf,tt,aa,'',
     ''mm,'' @ [backslash] @ ''1,t0,vv,pf,tt,aa,'', ''c0,vv,t0,vv,mm,ii,'',
     ''h0,vv,t0,uu,s0,xx,mf,'', ''k0,aa,p0,vv,ch,ii,'', ''k0,aa,p0,ii,nf,nn,xx,nf,'',
     ''c0,vv,mf,cc,ii,'', ''oo,mf,k0,'', ''k0,uu,mf,k0,ii,t0,aa,'',
     [backslash] @ ''1,aa,ll,'' @ [backslash] @ ''2'' @ [backslash] @ ''2,'',
     ''ch,vv,t0,ii,nf,'', ''nn,ii,p0,uu,ll,'', ''kk,oo,rr,ii,'', ''ss,qq,'', ''cc,qq,c0,uu,'',
     ''k0,ii,ll,kk,aa,'', ''mm,uu,ll,tt,oo,ng,ii,'', ''mm,uu,ll,-cc,'', ''pp,aa,t0,aa,kf,'',
     ''ss,oo,kf,'', [backslash] @ ''1'' @ [backslash] @ ''1,'', ''k0,aa,ng,kk,aa,'',
     ''tt,aa,ll,'', ''t0,xx,ng,pp,uu,ll,'', ''ch,aa,ng,ss,aa,ll,'',
     ''k0,aa,ng,cc,uu,ll,k0,ii,'', ''aa,nf,kk,oo,'', [backslash] @ ''1'' @ [backslash] @ ''1,'',
     ''ii,c0,uu,ng,nn,ii,c0,uu,kf,'', ''ya,k0,xx,mf,nn,ya,k0,xx,mf,'',
     ''p0,ee,k0,qq,nf,nn,ii,tf,'', ''kk,qq,nf,nn,ii,pf,'', ''nn,aa,mm,uu,nf,nn,ii,pf,'',
     ''qq,nf,nn,yv,ll,'', ''t0,wi,nf,-nn,'', ''nn,xx,tf,nn,yv,rr,xx,mf,'',
     ''t0,ii,k0,xx,s0,'' @ [backslash] @ ''1,'',
     [backslash] @ ''1,ii,xx,s0,'' @ [backslash] @ ''3,'',
     ''ph,ii,xx,p0,'' @ [backslash] @ ''1,'', ''kh,ii,xx,k0,'' @ [backslash] @ ''1,'',
     ''ll,-ph,'', ''nf,-'' @ [backslash] @ ''1h,'', ''ll,-'' @ [backslash] @ ''1h,'',
     ''ll,-kh,'', ''nf,-ch,'', [backslash] @ ''1kf,-'' @ [backslash] @ ''3,'',
     [backslash] @ ''1ll,-kk,'', ''nf,-'' @ [backslash] @ ''1h,'', ''nf,-ss,'', ''nf,-nn,'',
     ''-nn,'', ''ll,-rr,'', ''ll,-'' @ [backslash] @ ''1h,'', ''ll,-ss,'', ''-rr,'',
     ''nf,-'' @ [backslash] @ ''1'' @ [backslash] @ ''1,'',
     [backslash] @ ''1mf,-'' @ [backslash] @ ''3'' @ [backslash] @ ''3,'',
     [backslash] @ ''1ll,-'' @ [backslash] @ ''4'' @ [backslash] @ ''4,'',
     ''h0,'' @ [backslash] @ ''1,ll,-ll,'',
     ''h0,'' @ [backslash] @ ''1,ll,-'' @ [backslash] @ ''2'' @ [backslash] @ ''2,'',
     ''kf,-'' @ [backslash] @ ''1'' @ [backslash] @ ''1,'', ''pf,-pp,'', ''tf,-pp,'',
     ''ll,-'' @ [backslash] @ ''2'' @ [backslash] @ ''2,'',
     ''pf,-'' @ [backslash] @ ''1'' @ [backslash] @ ''1,'',
     ''tf,-'' @ [backslash] @ ''2'' @ [backslash] @ ''2,'',
     ''kf,-'' @ [backslash] @ ''1'' @ [backslash] @ ''1,'',
     ''pf,-'' @ [backslash] @ ''1'' @ [backslash] @ ''1,'', ''pp,'', ''-ss,'', ''nf,-ss,'',
     ''ll,-ss,'', ''kf,'', ''nf,'', ''ll,'', ''mf,'', ''pf,'', [backslash] @ ''1f,-ss,'',
     ''ll,-ss,'', ''nf,-c0,'', ''ll,-k0,'', ''ll,-mm,'', ''ll,-p0,'',
     ''ll,-'' @ [backslash] @ ''1h,'', ''f,-nn,'', ''nf,-nn,'',
     ''nf,-'' @ [backslash] @ ''1'' @ [backslash] @ ''1,'', ''nf,'', ''mf,-kk,'', ''mf,'',
     ''ng,'', ''ng,'', ''mf,'', ''mf,'', ''nn,'', ''nf,'', ''-rr,'', ''ll,-rr,'', ''ll,-rr,'',
     ''-c0,'', ''-ch,'', ''-ch,'', ''-'' @ [backslash] @ ''1h,'', ''-'' @ [backslash] @ ''1h,'',
     ''-th,'', ''-'' @ [backslash] @ ''1,'', ''-nn,'', ''tf,'', ''-'', ''-rr,'',
     ''-'' @ [backslash] @ ''g<1>0,'', ''-'' @ [backslash] @ ''1'' @ [backslash] @ ''1,'',
     ''tf,'', ''kf,'', ''pf,'', '','', ''ll,'', ''nf,-'', ''-rr,'', ''ll,-rr,'']"

definition runKoG2P :: "int list \<Rightarrow> string result option" where
  "runKoG2P graph = graph2prono graph rule_in rule_out"

subsection \<open>The substitutions of graph2phone as plain list functions\<close>

text \<open>
  Each \<open>re.sub\<close> call of \<open>graph2phone\<close> is shown below to compute one of the following
  functions; the properties of \<open>graph2phone\<close> are then proved on them.
\<close>

definition rx_elide :: regex where
  "rx_elide = Seq (Atm (Lit CHR ''-'')) (Grp 1 (Seq (Atm (Lit CHR ''o'')) (Atm (Lit CHR ''h''))))"

definition rx_initial :: regex where
  "rx_initial = Seq Bol (Seq (Atm (Lit CHR ''o'')) (Atm (Lit CHR ''h'')))"

definition rx_ng_hyphen :: regex where
  "rx_ng_hyphen = Seq (Atm (Lit CHR ''o'')) (Seq (Atm (Lit CHR ''h'')) (Atm (Lit CHR ''-'')))"

definition rx_ng_boundary :: regex where
  "rx_ng_boundary =
     Seq (Atm (Lit CHR ''o'')) (Seq (Atm (Lit CHR ''h'')) (Grp 1 (Alt (Atm (Cls ''# '')) Eol)))"

definition rx_marker_hyphen :: regex where
  "rx_marker_hyphen = Seq (Grp 1 (Plus NonWord)) (Atm (Lit CHR ''-''))"

definition rx_trailing :: regex where
  "rx_trailing = Seq (Plus NonWord) Eol"

definition rx_leading :: regex where
  "rx_leading = Seq Bol (Atm (Lit CHR ''-''))"

fun elide :: "string \<Rightarrow> string \<Rightarrow> string" where
  "elide rep [] = []"
| "elide rep (a # cs) =
     (if a = CHR ''-'' \<and> take 2 cs = ''oh'' then rep @ elide rep (drop 2 cs)
      else a # elide rep cs)"

definition strip_initial :: "string \<Rightarrow> string" where
  "strip_initial s = (if take 2 s = ''oh'' then drop 2 s else s)"

fun ng_hyphen :: "string \<Rightarrow> string" where
  "ng_hyphen [] = []"
| "ng_hyphen (a # cs) =
     (if a = CHR ''o'' \<and> take 2 cs = ''h-'' then ''ng-'' @ ng_hyphen (drop 2 cs)
      else a # ng_hyphen cs)"

fun ng_boundary :: "string \<Rightarrow> string" where
  "ng_boundary [] = []"
| "ng_boundary (a # cs) =
     (if a = CHR ''o'' \<and> take 1 cs = ''h'' then
        (if take 1 (drop 1 cs) = ''#'' \<or> take 1 (drop 1 cs) = '' '' then
           ''ng'' @ ng_boundary (drop 2 cs)
         else if drop 1 cs = [] \<or> drop 1 cs = [newline] then ''ng'' @ ng_boundary (drop 1 cs)
         else a # ng_boundary cs)
      else a # ng_boundary cs)"

fun star_hyphen :: "string \<Rightarrow> nat option" where
  "star_hyphen [] = None"
| "star_hyphen (c # cs) =
     (if is_word c then None
      else (case star_hyphen cs of
              Some n \<Rightarrow> Some (Suc n)
            | None \<Rightarrow> if c = CHR ''-'' then Some 0 else None))"

function marker_hyphen :: "string \<Rightarrow> string" where
  "marker_hyphen [] = []"
| "marker_hyphen (c # cs) =
     (if is_word c then c # marker_hyphen cs
      else (case star_hyphen cs of
              Some n \<Rightarrow> (c # take n cs) @ marker_hyphen (drop (Suc n) cs)
            | None \<Rightarrow> c # marker_hyphen cs))"
  by pat_completeness auto
termination
  by (relation "measure length") auto

fun strip_trailing :: "string \<Rightarrow> string" where
  "strip_trailing [] = []"
| "strip_trailing (c # cs) =
     (if \<not> is_word c \<and> list_all (\<lambda>x. \<not> is_word x) cs then [] else c # strip_trailing cs)"

definition strip_leading :: "string \<Rightarrow> string" where
  "strip_leading s = (if take 1 s = ''-'' then drop 1 s else s)"

text \<open>
  What one code point adds to \<open>phones\<close> in the loop of \<open>graph2phone\<close> (with the
  null onset already elided), and the seven substitutions behind the loop.
\<close>

definition emitted :: "int \<Rightarrow> string" where
  "emitted c =
     (if c = 32 then ''#''
      else if isHangul c then
        (let ons = ONS ! nat ((c - 44032) div 588)
         in ''-'' @ (if ons = ''oh'' then [] else ons)
              @ NUC ! nat (((c - 44032) mod 588) div 28)
              @ COD ! nat ((c - 44032) mod 28))
      else [])"

definition finish :: "string \<Rightarrow> string" where
  "finish phones =
     strip_leading (strip_trailing (marker_hyphen (ng_boundary (ng_hyphen
       (elide [] (strip_initial phones))))))"

text \<open>Every hyphen of a phone string is followed by a word character.\<close>

fun hy_ok :: "string \<Rightarrow> bool" where
  "hy_ok [] = True"
| "hy_ok (c # cs) = ((if c = CHR ''-'' then cs \<noteq> [] \<and> is_word (hd cs) else True) \<and> hy_ok cs)"

text \<open>
  The iteration of \<open>graph2prono\<close> in the words of its description: \<open>prono_after n\<close> is
  the value of \<open>prono_prev\<close> after \<open>n\<close> passes none of which met the stopping test (the
  results of two successive passes, stripped of their hyphens, differ).
\<close>

definition no_hyphen :: "string \<Rightarrow> string" where
  "no_hyphen s = filter (\<lambda>c. c \<noteq> CHR ''-'') s"

fun prono_after :: "string list \<Rightarrow> string list \<Rightarrow> nat \<Rightarrow> string \<Rightarrow> string option" where
  "prono_after rin rout 0 prono = Some prono"
| "prono_after rin rout (Suc n) prono =
     (case next_prono rin rout prono of
        Inl e \<Rightarrow> None
      | Inr prono_new \<Rightarrow>
          if no_hyphen prono = no_hyphen prono_new then None
          else prono_after rin rout n prono_new)"

text \<open>
  A phone string is sealed when the substitution of the loop leaves it alone whatever is
  appended to it (a predicate of the proofs only, not of the program).
\<close>

definition sealed :: "string \<Rightarrow> bool" where
  "sealed s = (\<forall>t. elide ''-'' (s @ t) = s @ elide ''-'' t)"

text \<open>
  Two predicates of the proofs about \<open>addPhoneBoundary\<close> (not of the program). A phone
  string is paired when its letters and digits come two by two, as the two-character
  codes of the tables do, between characters of any other kind. \<open>tail_ok\<close> says that
  the last character but one of a string, if there is one, is a letter or a digit.
\<close>

fun paired :: "string \<Rightarrow> bool" where
  "paired [] = True"
| "paired [c] = (\<not> is_word c)"
| "paired (a # b # cs) = (if is_word a then is_word b \<and> paired cs else paired (b # cs))"

fun tail_ok :: "string \<Rightarrow> bool" where
  "tail_ok (a # b # c # s) = tail_ok (b # c # s)"
| "tail_ok [a, b] = is_word a"
| "tail_ok s = True"

section \<open>Properties\<close>

subsection \<open>Decomposition of a syllable\<close>

lemma item_in_range: "0 \<le> i \<Longrightarrow> i < int (length xs) \<Longrightarrow> item xs i = Inr (xs ! nat i)"
  by (simp add: item_def)

lemma hangul_offsets:
  assumes "isHangul c"
  shows "0 \<le> (c - 44032) div 588" and "(c - 44032) div 588 \<le> 18"
    and "0 \<le> ((c - 44032) mod 588) div 28" and "((c - 44032) mod 588) div 28 \<le> 20"
    and "0 \<le> ((c - 44032) mod 588) mod 28" and "((c - 44032) mod 588) mod 28 \<le> 27"
    and "((c - 44032) mod 588) mod 28 = (c - 44032) mod 28"
proof -
  from assms have r: "0 \<le> c - 44032" "c - 44032 \<le> 11171"
    by (simp_all add: isHangul_def)
  show "0 \<le> (c - 44032) div 588" using r by simp
  show "(c - 44032) div 588 \<le> 18" using r by linarith
  have m: "0 \<le> (c - 44032) mod 588" "(c - 44032) mod 588 < 588" by simp_all
  show "0 \<le> ((c - 44032) mod 588) div 28" using m by simp
  show "((c - 44032) mod 588) div 28 \<le> 20" using m by linarith
  show "0 \<le> ((c - 44032) mod 588) mod 28" by simp
  have "((c - 44032) mod 588) mod 28 < 28" by simp
  then show "((c - 44032) mod 588) mod 28 \<le> 27" by linarith
  show "((c - 44032) mod 588) mod 28 = (c - 44032) mod 28"
    by (rule mod_mod_cancel) simp
qed

lemma table_lengths: "length ONS = 19" "length NUC = 21" "length COD = 28"
  by (simp_all add: ONS_def NUC_def COD_def)

lemma syllable_hangul:
  assumes "isHangul c"
  shows "syllable c = Inr (''-'' @ ONS ! nat ((c - 44032) div 588)
           @ NUC ! nat (((c - 44032) mod 588) div 28)
           @ COD ! nat ((c - 44032) mod 28))"
proof -
  note h = hangul_offsets [OF assms]
  have o: "item ONS (iONS c - 1) = Inr (ONS ! nat ((c - 44032) div 588))"
    using h(1,2) by (simp add: iONS_def item_in_range table_lengths)
  have n: "item NUC (iNUC c - 1) = Inr (NUC ! nat (((c - 44032) mod 588) div 28))"
    using h(3,4) by (simp add: iNUC_def item_in_range table_lengths)
  have d: "item COD (iCOD c - 1) = Inr (COD ! nat ((c - 44032) mod 28))"
    using h(5,6) by (simp add: iCOD_def item_in_range table_lengths h(7))
  show ?thesis
    by (simp add: syllable_def o n d bind_def)
qed

text \<open>
  C1. For every Hangul code point \<open>c\<close> in [0xAC00, 0xD7A3] the indices at which
  \<open>graph2phone\<close> reads its three tables are \<open>(c - 0xAC00) div 588\<close>,
  \<open>((c - 0xAC00) mod 588) div 28\<close> and \<open>(c - 0xAC00) mod 28\<close>; they lie in [0,18],
  [0,20] and [0,27], the syllable's text is built from the table entries at these
  indices, and for \<open>c = 0xAC00\<close> the indices are (0,0,0).
\<close>

theorem graph2phone_decomposition:
  assumes "isHangul c"
  shows "iONS c - 1 = (c - 0xAC00) div 588
       \<and> iNUC c - 1 = ((c - 0xAC00) mod 588) div 28
       \<and> iCOD c - 1 = (c - 0xAC00) mod 28
       \<and> 0 \<le> iONS c - 1 \<and> iONS c - 1 \<le> 18
       \<and> 0 \<le> iNUC c - 1 \<and> iNUC c - 1 \<le> 20
       \<and> 0 \<le> iCOD c - 1 \<and> iCOD c - 1 \<le> 27
       \<and> syllable c = Inr (''-'' @ ONS ! nat (iONS c - 1) @ NUC ! nat (iNUC c - 1)
                                  @ COD ! nat (iCOD c - 1))
       \<and> (iONS 0xAC00 - 1, iNUC 0xAC00 - 1, iCOD 0xAC00 - 1) = (0, 0, 0)"
proof -
  note h = hangul_offsets [OF assms]
  have i: "iONS c - 1 = (c - 44032) div 588" "iNUC c - 1 = ((c - 44032) mod 588) div 28"
    "iCOD c - 1 = (c - 44032) mod 28"
    by (simp_all add: iONS_def iNUC_def iCOD_def h(7))
  have z: "(iONS 0xAC00 - 1, iNUC 0xAC00 - 1, iCOD 0xAC00 - 1) = (0, 0, 0)"
    by (simp add: iONS_def iNUC_def iCOD_def)
  have s: "syllable c = Inr (''-'' @ ONS ! nat (iONS c - 1) @ NUC ! nat (iNUC c - 1)
                                  @ COD ! nat (iCOD c - 1))"
    unfolding i by (rule syllable_hangul [OF assms])
  have r: "0 \<le> iONS c - 1" "iONS c - 1 \<le> 18" "0 \<le> iNUC c - 1" "iNUC c - 1 \<le> 20"
    "0 \<le> iCOD c - 1" "iCOD c - 1 \<le> 27"
    unfolding i using h(1-6) by (simp_all only: h(7))
  have e: "iONS c - 1 = (c - 0xAC00) div 588" "iNUC c - 1 = ((c - 0xAC00) mod 588) div 28"
    "iCOD c - 1 = (c - 0xAC00) mod 28"
    using i by simp_all
  from e r s z show ?thesis
    by (intro conjI)
qed

theorem graph2phone_decomposition_witness:
  "isHangul 0xD7A3
   \<and> (iONS 0xD7A3 - 1, iNUC 0xD7A3 - 1, iCOD 0xD7A3 - 1) = (18, 20, 27)
   \<and> syllable 0xD7A3 = Inr ''-h0iih0''"
proof -
  have h: "isHangul 0xD7A3" by (simp add: isHangul_def)
  have i: "iONS 0xD7A3 - 1 = 18" "iNUC 0xD7A3 - 1 = 20" "iCOD 0xD7A3 - 1 = 27"
    by (simp_all add: iONS_def iNUC_def iCOD_def)
  have t: "ONS ! 18 = ''h0''" "NUC ! 20 = ''ii''" "COD ! 27 = ''h0''"
    by (simp_all add: ONS_def NUC_def COD_def)
  show ?thesis
    using h graph2phone_decomposition [OF h]
    by (simp add: i t)
qed

subsection \<open>The substitutions of graph2phone, characterised\<close>

declare sub_loop.simps [simp del]

declare rmatch.simps(14) [simp del]

lemmas rmatch_Star = rmatch.simps(14)

lemma re_sub_compiled:
  assumes "compile pattern = Inr (rx, ng)" and "parse_template repl = Inr tpl"
    and "list_all (group_ok ng) tpl"
  shows "re_sub pattern repl s = Inr (sub_loop rx tpl [] s False)"
  using assms by (simp add: re_sub_def)

lemma word_facts [simp]:
  "\<not> is_word CHR ''-''" "\<not> is_word CHR ''#''" "\<not> is_word CHR '' ''" "\<not> is_word newline"
  "is_word CHR ''o''" "is_word CHR ''h''" "is_word CHR ''n''" "is_word CHR ''g''"
  by (simp_all add: is_word_def newline_def)

lemma newline_neq [simp]: "newline \<noteq> CHR ''o''" "newline \<noteq> CHR ''-''" "CHR ''o'' \<noteq> newline"
  by (simp_all add: newline_def)

lemma template_empty: "parse_template [] = Inr []"
  by simp

lemma template_hyphen: "parse_template ''-'' = Inr [TLit CHR ''-'']"
  by code_simp

lemma template_ng_hyphen: "parse_template ''ng-'' = Inr [TLit CHR ''n'', TLit CHR ''g'', TLit CHR ''-'']"
  by code_simp

lemma template_ng: "parse_template ''ng'' = Inr [TLit CHR ''n'', TLit CHR ''g'']"
  by code_simp

lemma template_group1: "parse_template ([backslash] @ ''1'') = Inr [TGrp 1]"
  by code_simp

lemma compile_elide: "compile ''-(oh)'' = Inr (rx_elide, 1)"
  unfolding rx_elide_def by code_simp

lemma expand_lits [simp]: "expand (map TLit rep) caps = rep"
  by (induction rep) simp_all

lemma sub_elide: "sub_loop rx_elide (map TLit rep) pre s False = elide rep s"
  unfolding rx_elide_def
proof (induction rep s arbitrary: pre rule: elide.induct)
  case (1 rep)
  show ?case by (subst sub_loop.simps) simp
next
  case (2 rep a cs)
  show ?case
    by (subst sub_loop.simps) (use 2 in \<open>auto split: list.splits\<close>)
qed

lemma re_sub_elide_hyphen: "re_sub ''-(oh)'' ''-'' s = Inr (elide ''-'' s)"
  using re_sub_compiled [OF compile_elide template_hyphen, of s] sub_elide [of "''-''" "[]" s]
  by simp

lemma re_sub_elide_empty: "re_sub ''-(oh)'' [] s = Inr (elide [] s)"
  using re_sub_compiled [OF compile_elide template_empty, of s] sub_elide [of "[]" "[]" s]
  by simp

lemma compile_initial: "compile ''^oh'' = Inr (rx_initial, 0)"
  unfolding rx_initial_def by code_simp

lemma sub_initial_later: "pre \<noteq> [] \<Longrightarrow> sub_loop rx_initial tpl pre s False = s"
  unfolding rx_initial_def
proof (induction s arbitrary: pre)
  case Nil
  then show ?case by (subst sub_loop.simps) simp
next
  case (Cons a s)
  then show ?case by (subst sub_loop.simps) simp
qed

lemma sub_initial: "sub_loop rx_initial [] [] s False = strip_initial s"
  using sub_initial_later [of _ "[]"] unfolding rx_initial_def
  by (subst sub_loop.simps) (auto simp: strip_initial_def split: list.splits)

lemma re_sub_initial: "re_sub ''^oh'' [] s = Inr (strip_initial s)"
  using re_sub_compiled [OF compile_initial template_empty, of s] by (simp add: sub_initial)

lemma compile_ng_hyphen: "compile ''oh-'' = Inr (rx_ng_hyphen, 0)"
  unfolding rx_ng_hyphen_def by code_simp

lemma sub_ng_hyphen:
  "sub_loop rx_ng_hyphen [TLit CHR ''n'', TLit CHR ''g'', TLit CHR ''-''] pre s False = ng_hyphen s"
  unfolding rx_ng_hyphen_def
proof (induction s arbitrary: pre rule: ng_hyphen.induct)
  case 1
  show ?case by (subst sub_loop.simps) simp
next
  case (2 a cs)
  show ?case
    by (subst sub_loop.simps) (use 2 in \<open>auto split: list.splits\<close>)
qed

lemma re_sub_ng_hyphen: "re_sub ''oh-'' ''ng-'' s = Inr (ng_hyphen s)"
  using re_sub_compiled [OF compile_ng_hyphen template_ng_hyphen, of s]
  by (simp add: sub_ng_hyphen)

lemma compile_ng_boundary: "compile ''oh([# ]|$)'' = Inr (rx_ng_boundary, 1)"
  unfolding rx_ng_boundary_def by code_simp

lemma rmatch_ng_boundary:
  "rmatch [KRe rx_ng_boundary] pre (a # cs) [] =
     (if a = CHR ''o'' \<and> take 1 cs = ''h'' then
        (if take 1 (drop 1 cs) = ''#'' \<or> take 1 (drop 1 cs) = '' '' then
           Some (rev (take 2 cs) @ a # pre, drop 2 cs, [(1, take 1 (drop 1 cs))])
         else if drop 1 cs = [] \<or> drop 1 cs = [newline] then
           Some (rev (take 1 cs) @ a # pre, drop 1 cs, [(1, [])])
         else None)
      else None)"
proof (cases cs)
  case Nil
  then show ?thesis by (simp add: rx_ng_boundary_def)
next
  case c1: (Cons b r)
  show ?thesis
  proof (cases r)
    case Nil
    with c1 show ?thesis by (simp add: rx_ng_boundary_def)
  next
    case (Cons c r')
    with c1 show ?thesis by (simp add: rx_ng_boundary_def)
  qed
qed

lemma sub_ng_boundary_Nil: "sub_loop rx_ng_boundary tpl pre [] False = []"
  by (subst sub_loop.simps) (simp add: rx_ng_boundary_def)

lemma sub_ng_boundary_newline: "sub_loop rx_ng_boundary tpl pre [newline] False = [newline]"
  by (subst sub_loop.simps) (simp add: rmatch_ng_boundary sub_ng_boundary_Nil)

lemma sub_ng_boundary:
  "sub_loop rx_ng_boundary [TLit CHR ''n'', TLit CHR ''g''] pre s False = ng_boundary s"
proof (induction s arbitrary: pre rule: ng_boundary.induct)
  case 1
  show ?case by (simp add: sub_ng_boundary_Nil)
next
  case (2 a cs)
  show ?case
    by (subst sub_loop.simps)
       (use 2 in \<open>simp add: rmatch_ng_boundary sub_ng_boundary_Nil sub_ng_boundary_newline\<close>)
qed

lemma re_sub_ng_boundary: "re_sub ''oh([# ]|$)'' ''ng'' s = Inr (ng_boundary s)"
  using re_sub_compiled [OF compile_ng_boundary template_ng, of s]
  by (simp add: sub_ng_boundary)

lemma compile_marker_hyphen:
  "compile (''('' @ [backslash] @ ''W+)'' @ [backslash] @ ''-'') = Inr (rx_marker_hyphen, 1)"
  unfolding rx_marker_hyphen_def by code_simp

lemma star_hyphen_less: "star_hyphen cs = Some n \<Longrightarrow> n < length cs"
  by (induction cs arbitrary: n) (auto split: if_splits option.splits)

lemma rmatch_star_hyphen:
  "rmatch [KRe (Star NonWord), KClose g start, KRe (Atm (Lit CHR ''-''))] pre rest caps =
     (case star_hyphen rest of
        None \<Rightarrow> None
      | Some n \<Rightarrow>
          Some (rev (take (Suc n) rest) @ pre, drop (Suc n) rest,
                (g, take (length start - length (drop n rest)) start) # caps))"
proof (induction rest arbitrary: pre)
  case Nil
  show ?case by (subst rmatch_Star) simp
next
  case (Cons c cs)
  show ?case
    by (subst rmatch_Star) (auto simp: Cons split: option.splits)
qed

lemma rmatch_marker_hyphen:
  "rmatch [KRe rx_marker_hyphen] pre (c # cs) [] =
     (if is_word c then None
      else (case star_hyphen cs of
              None \<Rightarrow> None
            | Some n \<Rightarrow> Some (rev (take (Suc n) cs) @ c # pre, drop (Suc n) cs,
                               [(1, c # take n cs)])))"
proof (cases "star_hyphen cs")
  case None
  then show ?thesis by (simp add: rx_marker_hyphen_def rmatch_star_hyphen)
next
  case (Some n)
  from star_hyphen_less [OF Some] have "Suc (length cs) - (length cs - n) = Suc n"
    by simp
  with Some show ?thesis by (simp add: rx_marker_hyphen_def rmatch_star_hyphen)
qed

lemma sub_marker_hyphen_Nil: "sub_loop rx_marker_hyphen tpl pre [] False = []"
  by (subst sub_loop.simps) (simp add: rx_marker_hyphen_def)

lemma sub_marker_hyphen: "sub_loop rx_marker_hyphen [TGrp 1] pre s False = marker_hyphen s"
proof (induction s arbitrary: pre rule: marker_hyphen.induct)
  case 1
  show ?case by (simp add: sub_marker_hyphen_Nil)
next
  case (2 c cs)
  show ?case
    by (subst sub_loop.simps)
       (use 2 in \<open>simp add: rmatch_marker_hyphen less_Suc_eq_le split: option.splits\<close>)
qed

lemma re_sub_marker_hyphen:
  "re_sub (''('' @ [backslash] @ ''W+)'' @ [backslash] @ ''-'') ([backslash] @ ''1'') s
     = Inr (marker_hyphen s)"
  using re_sub_compiled [OF compile_marker_hyphen template_group1, of s]
    sub_marker_hyphen [of "[]" s]
  by simp

lemma compile_trailing: "compile ([backslash] @ ''W+$'') = Inr (rx_trailing, 0)"
  unfolding rx_trailing_def by code_simp

lemma rmatch_star_eol:
  "rmatch [KRe (Star NonWord), KRe Eol] pre rest caps =
     (if list_all (\<lambda>x. \<not> is_word x) rest then Some (rev rest @ pre, [], caps) else None)"
proof (induction rest arbitrary: pre)
  case Nil
  show ?case by (subst rmatch_Star) simp
next
  case (Cons c cs)
  show ?case by (subst rmatch_Star) (auto simp: Cons)
qed

lemma sub_trailing_Nil: "sub_loop rx_trailing tpl pre [] False = []"
  by (subst sub_loop.simps) (simp add: rx_trailing_def)

lemma sub_trailing: "sub_loop rx_trailing [] pre s False = strip_trailing s"
proof (induction s arbitrary: pre)
  case Nil
  show ?case by (simp add: sub_trailing_Nil)
next
  case (Cons c cs)
  have m: "rmatch [KRe rx_trailing] pre (c # cs) [] =
      (if \<not> is_word c \<and> list_all (\<lambda>x. \<not> is_word x) cs then Some (rev cs @ c # pre, [], [])
       else None)"
    by (simp add: rx_trailing_def rmatch_star_eol)
  show ?case
    by (subst sub_loop.simps) (simp add: m Cons sub_trailing_Nil)
qed

lemma re_sub_trailing: "re_sub ([backslash] @ ''W+$'') [] s = Inr (strip_trailing s)"
  using re_sub_compiled [OF compile_trailing template_empty, of s] by (simp add: sub_trailing)

lemma compile_leading: "compile (''^'' @ [backslash] @ ''-'') = Inr (rx_leading, 0)"
  unfolding rx_leading_def by code_simp

lemma sub_leading_later: "pre \<noteq> [] \<Longrightarrow> sub_loop rx_leading tpl pre s False = s"
  unfolding rx_leading_def
proof (induction s arbitrary: pre)
  case Nil
  then show ?case by (subst sub_loop.simps) simp
next
  case (Cons a s)
  then show ?case by (subst sub_loop.simps) simp
qed

lemma sub_leading: "sub_loop rx_leading [] [] s False = strip_leading s"
  using sub_leading_later [of _ "[]"] unfolding rx_leading_def
  by (subst sub_loop.simps) (auto simp: strip_leading_def split: list.splits)

lemma re_sub_leading: "re_sub (''^'' @ [backslash] @ ''-'') [] s = Inr (strip_leading s)"
  using re_sub_compiled [OF compile_leading template_empty, of s] by (simp add: sub_leading)

subsection \<open>What graph2phone computes\<close>

lemma table_entries:
  "\<forall>x \<in> set ONS. length x = 2 \<and> list_all is_word x"
  "\<forall>x \<in> set NUC. length x = 2 \<and> list_all is_word x \<and> x \<noteq> ''oh''"
  "\<forall>x \<in> set COD. list_all is_word x"
  by (simp_all add: ONS_def NUC_def COD_def is_word_def)

lemma hangul_entries:
  assumes "isHangul c"
  shows "ONS ! nat ((c - 44032) div 588) \<in> set ONS"
    and "NUC ! nat (((c - 44032) mod 588) div 28) \<in> set NUC"
    and "COD ! nat ((c - 44032) mod 28) \<in> set COD"
proof -
  note h = hangul_offsets [OF assms]
  show "ONS ! nat ((c - 44032) div 588) \<in> set ONS"
    using h(1,2) by (intro nth_mem) (simp add: table_lengths)
  show "NUC ! nat (((c - 44032) mod 588) div 28) \<in> set NUC"
    using h(3,4) by (intro nth_mem) (simp add: table_lengths)
  show "COD ! nat ((c - 44032) mod 28) \<in> set COD"
    using h(5,6) unfolding h(7) by (intro nth_mem) (simp add: table_lengths)
qed

lemma wordy_no_hyphen: "list_all is_word x \<Longrightarrow> CHR ''-'' \<notin> set x"
  by (induction x) auto

lemma elide_no_hyphen: "CHR ''-'' \<notin> set x \<Longrightarrow> elide rep (x @ t) = x @ elide rep t"
  by (induction x) auto

lemma elide_sealed_syllable:
  assumes "CHR ''-'' \<notin> set x" and "2 \<le> length x" and "take 2 x \<noteq> ''oh''"
  shows "elide rep (CHR ''-'' # x @ t) = CHR ''-'' # x @ elide rep t"
  using assms by (simp add: elide_no_hyphen)

lemma sealed_Nil: "sealed []"
  by (simp add: sealed_def)

lemma sealed_append: "sealed s \<Longrightarrow> sealed u \<Longrightarrow> sealed (s @ u)"
  by (simp add: sealed_def)

lemma sealed_fixed: "sealed s \<Longrightarrow> elide ''-'' s = s"
  unfolding sealed_def by (metis append_Nil2 elide.simps(1))

lemma emitted_hangul:
  assumes "isHangul c"
  shows "\<exists>x. emitted c = CHR ''-'' # x \<and> list_all is_word x \<and> 2 \<le> length x \<and> take 2 x \<noteq> ''oh''"
proof -
  let ?o = "ONS ! nat ((c - 44032) div 588)"
  let ?n = "NUC ! nat (((c - 44032) mod 588) div 28)"
  let ?d = "COD ! nat ((c - 44032) mod 28)"
  from hangul_entries [OF assms] table_entries
  have o: "length ?o = 2" "list_all is_word ?o"
    and n: "length ?n = 2" "list_all is_word ?n" "?n \<noteq> ''oh''"
    and d: "list_all is_word ?d"
    by blast+
  from assms have ne: "c \<noteq> 32" by (simp add: isHangul_def)
  show ?thesis
  proof (cases "?o = ''oh''")
    case True
    with assms ne have "emitted c = CHR ''-'' # (?n @ ?d)"
      by (simp add: emitted_def)
    with n d show ?thesis by simp
  next
    case False
    with assms ne have "emitted c = CHR ''-'' # (?o @ ?n @ ?d)"
      by (simp add: emitted_def)
    with o n d False show ?thesis by simp
  qed
qed

lemma sealed_emitted: "sealed (emitted c)"
proof (cases "isHangul c")
  case True
  from emitted_hangul [OF True] obtain x where
    x: "emitted c = CHR ''-'' # x" "list_all is_word x" "2 \<le> length x" "take 2 x \<noteq> ''oh''"
    by blast
  from x(2) have "CHR ''-'' \<notin> set x" by (rule wordy_no_hyphen)
  with x show ?thesis
    by (simp add: sealed_def elide_no_hyphen)
next
  case False
  then show ?thesis by (simp add: emitted_def sealed_def)
qed

lemma sealed_concat: "sealed (concat (map emitted cs))"
  by (induction cs) (simp_all add: sealed_Nil sealed_append sealed_emitted)

lemma elide_syllable:
  assumes "isHangul c"
  shows "syllable c = Inr tmp \<Longrightarrow> elide ''-'' tmp = emitted c"
proof -
  let ?o = "ONS ! nat ((c - 44032) div 588)"
  let ?n = "NUC ! nat (((c - 44032) mod 588) div 28)"
  let ?d = "COD ! nat ((c - 44032) mod 28)"
  assume "syllable c = Inr tmp"
  with syllable_hangul [OF assms] have tmp: "tmp = CHR ''-'' # ?o @ ?n @ ?d" by simp
  from hangul_entries [OF assms] table_entries
  have o: "length ?o = 2" "list_all is_word ?o"
    and n: "length ?n = 2" "list_all is_word ?n" "?n \<noteq> ''oh''"
    and d: "list_all is_word ?d"
    by blast+
  from assms have ne: "c \<noteq> 32" by (simp add: isHangul_def)
  have nh: "CHR ''-'' \<notin> set (?o @ ?n @ ?d)" "CHR ''-'' \<notin> set (?n @ ?d)"
    using o n d by (simp_all add: wordy_no_hyphen)
  have fx: "elide ''-'' (?o @ ?n @ ?d) = ?o @ ?n @ ?d" "elide ''-'' (?n @ ?d) = ?n @ ?d"
    using elide_no_hyphen [OF nh(1), of "''-''" "[]"] elide_no_hyphen [OF nh(2), of "''-''" "[]"]
    by simp_all
  show "elide ''-'' tmp = emitted c"
  proof (cases "?o = ''oh''")
    case True
    then show ?thesis
      using assms ne fx(2) by (simp add: tmp emitted_def)
  next
    case False
    then show ?thesis
      using assms ne fx(1) o(1) by (simp add: tmp emitted_def)
  qed
qed

lemma graph2phone_loop_emitted:
  "sealed phones \<Longrightarrow>
   graph2phone_loop (zip cs (checkCharType cs)) phones = Inr (phones @ concat (map emitted cs))"
proof (induction cs arbitrary: phones)
  case Nil
  show ?case by simp
next
  case (Cons c cs)
  have step: "sealed (phones @ emitted c)"
    using Cons.prems sealed_emitted by (rule sealed_append)
  show ?case
  proof (cases "c = 32")
    case True
    have e: "emitted 32 = ''#''" by (simp add: emitted_def)
    have "elide ''-'' (phones @ ''#'') = phones @ ''#''"
      using sealed_fixed [OF step] by (simp add: True e)
    then show ?thesis
      using Cons.IH [OF step] by (simp add: True re_sub_elide_hyphen e)
  next
    case ns: False
    show ?thesis
    proof (cases "isHangul c")
      case True
      from syllable_hangul [OF True] obtain tmp where tmp: "syllable c = Inr tmp" by blast
      have "elide ''-'' (phones @ tmp) = phones @ emitted c"
        using Cons.prems elide_syllable [OF True tmp] by (simp add: sealed_def)
      with ns True tmp show ?thesis
        using Cons.IH [OF step] by (simp add: re_sub_elide_hyphen bind_def)
    next
      case False
      with ns have e: "emitted c = []" by (simp add: emitted_def)
      with ns False show ?thesis
        using Cons.IH [OF Cons.prems] sealed_fixed [OF Cons.prems]
        by (simp add: re_sub_elide_hyphen)
    qed
  qed
qed

lemma graph2phone_eq: "graph2phone cs = Inr (finish (concat (map emitted cs)))"
  using graph2phone_loop_emitted [OF sealed_Nil, of cs]
  by (simp add: graph2phone_def bind_def finish_def re_sub_initial re_sub_elide_empty
      re_sub_ng_hyphen re_sub_ng_boundary re_sub_marker_hyphen [simplified]
      re_sub_trailing [simplified] re_sub_leading [simplified])

subsection \<open>Totality of graph2phone and the characters it drops\<close>

lemma emitted_other: "\<not> isHangul c \<Longrightarrow> c \<noteq> 32 \<Longrightarrow> emitted c = []"
  by (simp add: emitted_def)

lemma emitted_filter:
  "concat (map emitted (filter (\<lambda>c. isHangul c \<or> c = 32) cs)) = concat (map emitted cs)"
  by (induction cs) (simp_all add: emitted_other)

text \<open>
  C8. \<open>graph2phone\<close> returns a phone string for every list of code points (no table
  read is out of range, no substitution fails), and the code points that are neither
  Hangul syllables nor the space contribute nothing: deleting them from the input leaves
  the output as it is.
\<close>

theorem graph2phone_total:
  "(\<exists>phones. graph2phone cs = Inr phones)
   \<and> graph2phone (filter (\<lambda>c. isHangul c \<or> c = 32) cs) = graph2phone cs"
  by (simp add: graph2phone_eq emitted_filter)

subsection \<open>Classification of the code points\<close>

text \<open>
  C5 as stated fails: only U+0020 is classified as whitespace. A tab (U+0009) has type
  -1, the loop adds nothing for it, and no \<open>#\<close> separates the two syllables around it.
\<close>

theorem tab_emits_no_word_boundary:
  "checkCharType [0x09] = [-1]
   \<and> graph2phone_loop (zip [0x09] (checkCharType [0x09])) ''-k0aa'' = Inr ''-k0aa''
   \<and> graph2phone [0xAC00, 0x09, 0xAC00] = Inr ''k0aa-k0aa''
   \<and> graph2phone [0xAC00, 0x20, 0xAC00] = Inr ''k0aa#k0aa''"
  by code_simp

lemma checkCharType_map:
  "checkCharType cs =
     map (\<lambda>c. if c = 32 then 1 else if 0xAC00 \<le> c \<and> c \<le> 0xD7A3 then 0 else -1) cs"
  by (induction cs) (simp_all add: isHangul_def)

text \<open>
  C5, amended. The code points in [0xAC00, 0xD7A3] are decomposed as Hangul syllables
  (a hyphen, the onset code unless it is the null onset, the nucleus code, the coda code),
  the code point U+0020 and no other emits \<open>#\<close>, and every other code point, other
  whitespace included, is dropped: the loop of \<open>graph2phone\<close> yields the concatenation of
  what the code points emit.
\<close>

theorem classification_of_code_points:
  "checkCharType cs =
     map (\<lambda>c. if c = 32 then 1 else if 0xAC00 \<le> c \<and> c \<le> 0xD7A3 then 0 else -1) cs
   \<and> graph2phone_loop (zip cs (checkCharType cs)) [] = Inr (concat (map emitted cs))
   \<and> emitted c =
       (if 0xAC00 \<le> c \<and> c \<le> 0xD7A3 then
          ''-'' @ (if ONS ! nat (iONS c - 1) = ''oh'' then [] else ONS ! nat (iONS c - 1))
              @ NUC ! nat (iNUC c - 1) @ COD ! nat (iCOD c - 1)
        else if c = 32 then ''#''
        else [])"
proof -
  have l: "graph2phone_loop (zip cs (checkCharType cs)) [] = Inr (concat (map emitted cs))"
    using graph2phone_loop_emitted [OF sealed_Nil, of cs] by simp
  have e: "emitted c =
       (if 0xAC00 \<le> c \<and> c \<le> 0xD7A3 then
          ''-'' @ (if ONS ! nat (iONS c - 1) = ''oh'' then [] else ONS ! nat (iONS c - 1))
              @ NUC ! nat (iNUC c - 1) @ COD ! nat (iCOD c - 1)
        else if c = 32 then ''#''
        else [])"
  proof (cases "isHangul c")
    case True
    note h = hangul_offsets [OF True]
    from True have "c \<noteq> 32" "0xAC00 \<le> c \<and> c \<le> 0xD7A3" by (simp_all add: isHangul_def)
    then show ?thesis
      using True by (simp add: emitted_def iONS_def iNUC_def iCOD_def h(7) Let_def)
  next
    case False
    then have "\<not> (0xAC00 \<le> c \<and> c \<le> 0xD7A3)" by (simp add: isHangul_def)
    with False show ?thesis by (simp add: emitted_def)
  qed
  from checkCharType_map l e show ?thesis by (intro conjI)
qed

subsection \<open>Boundary markers at the ends of the phone string\<close>

lemma hy_ok_append: "hy_ok a \<Longrightarrow> hy_ok b \<Longrightarrow> hy_ok (a @ b)"
  by (induction a) auto

lemma hy_ok_wordy: "list_all is_word x \<Longrightarrow> hy_ok x"
  by (induction x) auto

lemma hy_ok_drop: "hy_ok s \<Longrightarrow> hy_ok (drop n s)"
proof (induction s arbitrary: n)
  case Nil
  show ?case by simp
next
  case (Cons a s)
  then show ?case by (cases n) simp_all
qed

lemma hy_ok_no_hyphen_append: "CHR ''-'' \<notin> set a \<Longrightarrow> hy_ok (a @ b) = hy_ok b"
  by (induction a) auto

lemma hy_ok_emitted: "hy_ok (emitted c)"
proof (cases "isHangul c")
  case True
  from emitted_hangul [OF True] obtain x where
    x: "emitted c = CHR ''-'' # x" "list_all is_word x" "2 \<le> length x"
    by blast
  from x(2,3) have "x \<noteq> []" "is_word (hd x)" by (cases x; simp)+
  with x(1,2) show ?thesis by (simp add: hy_ok_wordy)
next
  case False
  then show ?thesis by (simp add: emitted_def)
qed

lemma hy_ok_concat: "hy_ok (concat (map emitted cs))"
  by (induction cs) (simp_all add: hy_ok_append hy_ok_emitted)

lemma hy_ok_strip_initial: "hy_ok s \<Longrightarrow> hy_ok (strip_initial s)"
  by (simp add: strip_initial_def hy_ok_drop)

lemma elide_head: "is_word c \<Longrightarrow> elide rep (c # cs) = c # elide rep cs"
  by auto

lemma hy_ok_elide: "hy_ok s \<Longrightarrow> hy_ok (elide [] s)"
proof (induction "[] :: string" s rule: elide.induct)
  case 1
  show ?case by simp
next
  case (2 a cs)
  show ?case
  proof (cases "a = CHR ''-'' \<and> take 2 cs = ''oh''")
    case True
    with 2 show ?thesis by (simp add: hy_ok_drop)
  next
    case False
    from "2.prems" have t: "hy_ok cs" by simp
    have h: "hy_ok (elide [] cs)" using "2.hyps"(2) False t by simp
    show ?thesis
    proof (cases "a = CHR ''-''")
      case True
      with "2.prems" obtain c r where cs: "cs = c # r" "is_word c"
        by (cases cs) auto
      have e1: "elide [] (a # cs) = a # elide [] cs" using False True by simp
      have e2: "elide [] cs = c # elide [] r" unfolding cs(1) using cs(2) by (rule elide_head)
      from h have "hy_ok (c # elide [] r)" unfolding e2 .
      then show ?thesis unfolding e1 e2 using cs(2) by simp
    next
      case na: False
      with h show ?thesis by simp
    qed
  qed
qed

lemma ng_hyphen_head:
  "cs \<noteq> [] \<Longrightarrow> is_word (hd cs) \<Longrightarrow> ng_hyphen cs \<noteq> [] \<and> is_word (hd (ng_hyphen cs))"
  by (cases cs) auto

lemma hy_ok_ng_hyphen: "hy_ok s \<Longrightarrow> hy_ok (ng_hyphen s)"
proof (induction s rule: ng_hyphen.induct)
  case 1
  show ?case by simp
next
  case (2 a cs)
  show ?case
  proof (cases "a = CHR ''o'' \<and> take 2 cs = ''h-''")
    case True
    then obtain r where cs: "cs = CHR ''h'' # CHR ''-'' # r"
      by (cases cs; cases "tl cs") auto
    with "2.prems" have r: "r \<noteq> []" "is_word (hd r)" "hy_ok r" by simp_all
    from ng_hyphen_head [OF r(1,2)] "2.IH"(1) [OF True] r(3) cs
    have "ng_hyphen r \<noteq> []" "is_word (hd (ng_hyphen r))" "hy_ok (ng_hyphen r)" by simp_all
    with True cs show ?thesis by simp
  next
    case False
    from "2.prems" have t: "hy_ok cs" by simp
    have h: "hy_ok (ng_hyphen cs)" using "2.IH"(2) False t by simp
    show ?thesis
    proof (cases "a = CHR ''-''")
      case True
      with "2.prems" have "cs \<noteq> []" "is_word (hd cs)" by simp_all
      from ng_hyphen_head [OF this] h True show ?thesis by simp
    next
      case na: False
      with h False show ?thesis by auto
    qed
  qed
qed

lemma ng_boundary_head:
  "cs \<noteq> [] \<Longrightarrow> is_word (hd cs) \<Longrightarrow> ng_boundary cs \<noteq> [] \<and> is_word (hd (ng_boundary cs))"
  by (cases cs) auto

lemma hy_ok_ng_boundary: "hy_ok s \<Longrightarrow> hy_ok (ng_boundary s)"
proof (induction s rule: ng_boundary.induct)
  case 1
  show ?case by simp
next
  case (2 a cs)
  from "2.prems" have t: "hy_ok cs" by simp
  show ?case
  proof (cases "a = CHR ''-''")
    case True
    with "2.prems" have "cs \<noteq> []" "is_word (hd cs)" by simp_all
    from ng_boundary_head [OF this] "2.IH"(4) t True show ?thesis by simp
  next
    case na: False
    from t have d: "hy_ok (drop 1 cs)" "hy_ok (drop 2 cs)" by (rule hy_ok_drop)+
    show ?thesis
      using na "2.IH" t d by auto
  qed
qed

lemma star_hyphen_no_hyphen:
  "star_hyphen cs = Some n \<Longrightarrow> hy_ok cs \<Longrightarrow> CHR ''-'' \<notin> set (take n cs)"
proof (induction cs arbitrary: n)
  case Nil
  then show ?case by simp
next
  case (Cons x xs)
  show ?case
  proof (cases "star_hyphen xs")
    case None
    with Cons.prems show ?thesis by (auto split: if_splits)
  next
    case (Some m)
    from Cons.prems(2) have hx: "hy_ok xs" by simp
    have "x \<noteq> CHR ''-''"
    proof
      assume "x = CHR ''-''"
      with Cons.prems(2) have "xs \<noteq> []" "is_word (hd xs)" by simp_all
      then have "star_hyphen xs = None" by (cases xs) simp_all
      with Some show False by simp
    qed
    with Cons.prems(1) Some Cons.IH [OF Some hx] show ?thesis
      by (auto split: if_splits)
  qed
qed

lemma marker_hyphen_head: "is_word c \<Longrightarrow> marker_hyphen (c # cs) = c # marker_hyphen cs"
  by simp

lemma hy_ok_marker_hyphen: "hy_ok s \<Longrightarrow> hy_ok (marker_hyphen s)"
proof (induction s rule: marker_hyphen.induct)
  case 1
  show ?case by simp
next
  case (2 c cs)
  from "2.prems" have t: "hy_ok cs" by simp
  show ?case
  proof (cases "is_word c")
    case True
    then have "c \<noteq> CHR ''-''" by auto
    with True "2.IH"(1) t show ?thesis by simp
  next
    case nw: False
    show ?thesis
    proof (cases "star_hyphen cs")
      case None
      have h: "hy_ok (marker_hyphen cs)" using "2.IH"(2) nw None t by simp
      show ?thesis
      proof (cases "c = CHR ''-''")
        case True
        with "2.prems" obtain x xs where cs: "cs = x # xs" "is_word x"
          by (cases cs) auto
        have m1: "marker_hyphen (c # cs) = c # marker_hyphen cs" using nw None by simp
        have m2: "marker_hyphen cs = x # marker_hyphen xs"
          unfolding cs(1) using cs(2) by (rule marker_hyphen_head)
        from h have "hy_ok (x # marker_hyphen xs)" unfolding m2 .
        then show ?thesis unfolding m1 m2 using cs(2) by simp
      next
        case False
        with h nw None show ?thesis by simp
      qed
    next
      case (Some n)
      have h: "hy_ok (marker_hyphen (drop (Suc n) cs))"
        using "2.IH"(3) [OF nw Some] t by (simp add: hy_ok_drop)
      have nc: "c \<noteq> CHR ''-''"
      proof
        assume "c = CHR ''-''"
        with "2.prems" have "cs \<noteq> []" "is_word (hd cs)" by simp_all
        then have "star_hyphen cs = None" by (cases cs) simp_all
        with Some show False by simp
      qed
      from star_hyphen_no_hyphen [OF Some t] nc
      have "CHR ''-'' \<notin> set (c # take n cs)" by simp
      from hy_ok_no_hyphen_append [OF this] h
      have r: "hy_ok ((c # take n cs) @ marker_hyphen (drop (Suc n) cs))" by simp
      have m: "marker_hyphen (c # cs) = (c # take n cs) @ marker_hyphen (drop (Suc n) cs)"
        using nw Some by simp
      show ?thesis unfolding m by (rule r)
    qed
  qed
qed

lemma strip_trailing_head: "is_word c \<Longrightarrow> strip_trailing (c # cs) = c # strip_trailing cs"
  by simp

lemma hy_ok_strip_trailing: "hy_ok s \<Longrightarrow> hy_ok (strip_trailing s)"
proof (induction s)
  case Nil
  show ?case by simp
next
  case (Cons c cs)
  from Cons.prems have t: "hy_ok cs" by simp
  show ?case
  proof (cases "c = CHR ''-''")
    case True
    with Cons.prems obtain x xs where cs: "cs = x # xs" "is_word x"
      by (cases cs) auto
    with Cons.IH [OF t] True show ?thesis by simp
  next
    case False
    with Cons.IH [OF t] show ?thesis by simp
  qed
qed

lemma strip_trailing_last:
  "strip_trailing s = [] \<or> is_word (last (strip_trailing s))"
proof (induction s)
  case Nil
  show ?case by simp
next
  case (Cons c cs)
  show ?case
  proof (cases "\<not> is_word c \<and> list_all (\<lambda>x. \<not> is_word x) cs")
    case True
    then show ?thesis by simp
  next
    case False
    show ?thesis
    proof (cases "strip_trailing cs = []")
      case e: True
      have "list_all (\<lambda>x. \<not> is_word x) cs"
        using e by (induction cs) (auto split: if_splits)
      with False e show ?thesis by simp
    next
      case ne: False
      with Cons False show ?thesis by simp
    qed
  qed
qed

lemma hy_ok_finish:
  assumes "hy_ok s"
  shows "take 1 (finish s) \<noteq> ''-'' \<and> (finish s = [] \<or> is_word (last (finish s)))"
proof -
  let ?t = "strip_trailing (marker_hyphen (ng_boundary (ng_hyphen (elide [] (strip_initial s)))))"
  have h: "hy_ok ?t"
    using assms
    by (intro hy_ok_strip_trailing hy_ok_marker_hyphen hy_ok_ng_boundary hy_ok_ng_hyphen
        hy_ok_elide hy_ok_strip_initial)
  have l: "?t = [] \<or> is_word (last ?t)" by (rule strip_trailing_last)
  have f: "finish s = strip_leading ?t" by (simp add: finish_def)
  show ?thesis
  proof (cases ?t)
    case Nil
    with f show ?thesis by (simp add: strip_leading_def)
  next
    case (Cons c r)
    show ?thesis
    proof (cases "c = CHR ''-''")
      case True
      with h Cons have r: "r \<noteq> []" "is_word (hd r)" by simp_all
      then have "hd r \<noteq> CHR ''-''" by auto
      with r l Cons True f show ?thesis
        by (cases r) (simp_all add: strip_leading_def)
    next
      case False
      with l Cons f show ?thesis by (simp add: strip_leading_def)
    qed
  qed
qed

text \<open>
  C7 as stated fails: a leading word-boundary marker stays. For a space before a
  syllable \<open>graph2phone\<close> returns a phone string that begins with \<open>#\<close>: the last
  substitution, \<open>re.sub('^\-', '', phones)\<close>, removes a leading hyphen only.
\<close>

theorem leading_word_boundary_remains:
  "graph2phone [0x20, 0xAC00] = Inr ''#k0aa''"
  by code_simp

text \<open>
  C7, amended. For every input the output of \<open>graph2phone\<close> does not begin with the
  syllable-boundary marker \<open>-\<close> and ends with neither \<open>-\<close> nor \<open>#\<close> (it is empty or ends
  with a letter or digit); a word-boundary marker \<open>#\<close> at the beginning is kept.
\<close>

theorem graph2phone_no_dangling_marker:
  "\<exists>phones. graph2phone cs = Inr phones
     \<and> take 1 phones \<noteq> ''-''
     \<and> take 1 (rev phones) \<noteq> ''-'' \<and> take 1 (rev phones) \<noteq> ''#''"
proof -
  let ?p = "finish (concat (map emitted cs))"
  from hy_ok_finish [OF hy_ok_concat, of cs]
  have a: "take 1 ?p \<noteq> ''-''" and b: "?p = [] \<or> is_word (last ?p)" by simp_all
  from b have "take 1 (rev ?p) \<noteq> ''-'' \<and> take 1 (rev ?p) \<noteq> ''#''"
  proof
    assume "?p = []"
    then show ?thesis by simp
  next
    assume w: "is_word (last ?p)"
    show ?thesis
    proof (cases "?p = []")
      case True
      then show ?thesis by simp
    next
      case False
      then have "take 1 (rev ?p) = [last ?p]"
        by (cases ?p rule: rev_cases) simp_all
      with w show ?thesis by auto
    qed
  qed
  with a show ?thesis by (simp add: graph2phone_eq)
qed

subsection \<open>The coda null-onset code before a word boundary\<close>

text \<open>
  C6. A coda \<open>oh\<close> becomes \<open>ng\<close>, but the word boundary behind it is lost: for
  U+AC15 U+0020 U+AC00 (a syllable with null-onset coda, a space, a further syllable) the
  output of \<open>graph2phone\<close> has no \<open>#\<close> between the two words, since
  \<open>re.sub('oh([# ]|$)', 'ng', phones)\<close> replaces the marker together with the code.
  With any other coda (U+AC01, coda \<open>kf\<close>) the marker survives.
\<close>

theorem graph2phone_coda_ng_drops_word_boundary:
  "graph2phone [0xAC15, 0x20, 0xAC00] = Inr ''k0aang-k0aa''
   \<and> graph2phone [0xAC01, 0x20, 0xAC00] = Inr ''k0aakf#k0aa''"
  by code_simp

subsection \<open>addPhoneBoundary and the remainder of its input\<close>

declare addPhoneBoundary_loop.simps [simp del]

lemma paired_marker: "\<not> is_word a \<Longrightarrow> paired (a # t) = paired t"
  by (cases t) simp_all

lemma paired_word: "is_word a \<Longrightarrow> paired (a # t) = (\<exists>b r. t = b # r \<and> is_word b \<and> paired r)"
  by (cases t) auto

lemma paired_append: "paired a \<Longrightarrow> paired (a @ b) = paired b"
  by (induction a rule: paired.induct) (auto simp: paired_marker)

lemma paired_code: "length x = 2 \<Longrightarrow> list_all is_word x \<Longrightarrow> paired x"
  by (cases x; cases "tl x") auto

lemma coda_lengths: "\<forall>x \<in> set COD. x = [] \<or> length x = 2"
  by (simp add: COD_def)

lemma paired_emitted: "paired (emitted c)"
proof (cases "isHangul c")
  case True
  let ?o = "ONS ! nat ((c - 44032) div 588)"
  let ?n = "NUC ! nat (((c - 44032) mod 588) div 28)"
  let ?d = "COD ! nat ((c - 44032) mod 28)"
  from hangul_entries [OF True] table_entries coda_lengths
  have "length ?o = 2" "list_all is_word ?o" "length ?n = 2" "list_all is_word ?n"
    "list_all is_word ?d" "?d = [] \<or> length ?d = 2"
    by blast+
  then have p: "paired ?o" "paired ?n" "paired ?d"
    by (auto simp: paired_code)
  from True have "c \<noteq> 32" by (simp add: isHangul_def)
  with True p show ?thesis
    by (simp add: emitted_def Let_def paired_marker paired_append)
next
  case False
  then show ?thesis by (simp add: emitted_def)
qed

lemma paired_concat: "paired (concat (map emitted cs))"
  by (induction cs) (simp_all add: paired_append paired_emitted)

lemma paired_strip_initial: "paired s \<Longrightarrow> paired (strip_initial s)"
  by (cases s; cases "tl s") (auto simp: strip_initial_def)

lemma paired_strip_leading: "paired s \<Longrightarrow> paired (strip_leading s)"
  by (cases s) (auto simp: strip_leading_def paired_marker)

lemma paired_elide: "paired s \<Longrightarrow> paired (elide [] s)"
proof (induction s rule: paired.induct)
  case 1
  show ?case by simp
next
  case (2 c)
  then show ?case by simp
next
  case (3 a b cs)
  show ?case
  proof (cases "is_word a")
    case True
    with "3.prems" have b: "is_word b" and p: "paired cs" by simp_all
    from True b have "elide [] (a # b # cs) = a # b # elide [] cs"
      by (simp only: elide_head)
    with True b "3.IH"(1) [OF True p] show ?thesis by simp
  next
    case False
    with "3.prems" have p: "paired (b # cs)" by simp
    note h = "3.IH"(2) [OF False p]
    show ?thesis
    proof (cases "a = CHR ''-'' \<and> take 2 (b # cs) = ''oh''")
      case True
      then obtain r where r: "b = CHR ''o''" "cs = CHR ''h'' # r"
        by (cases cs) auto
      have "elide [] (b # cs) = b # CHR ''h'' # elide [] r"
        unfolding r by (simp only: elide_head word_facts)
      with h r have "paired (elide [] r)" by simp
      with True r show ?thesis by simp
    next
      case ne: False
      then have e: "elide [] (a # b # cs) = a # elide [] (b # cs)" by auto
      show ?thesis unfolding e using h paired_marker [OF False] by blast
    qed
  qed
qed

lemma ng_hyphen_code:
  assumes "is_word a" and "is_word b" and "paired cs"
  shows "ng_hyphen (a # b # cs) =
           (if a = CHR ''o'' \<and> b = CHR ''h'' \<and> take 1 cs = ''-''
            then ''ng-'' @ ng_hyphen (drop 1 cs) else a # b # ng_hyphen cs)"
proof -
  have "\<not> (b = CHR ''o'' \<and> take 2 cs = ''h-'')"
  proof
    assume h: "b = CHR ''o'' \<and> take 2 cs = ''h-''"
    then obtain r where "cs = CHR ''h'' # CHR ''-'' # r"
      by (cases cs; cases "tl cs") auto
    with assms(3) show False by simp
  qed
  then show ?thesis by (cases cs) auto
qed

lemma paired_ng_hyphen: "paired s \<Longrightarrow> paired (ng_hyphen s)"
proof (induction s rule: paired.induct)
  case 1
  show ?case by simp
next
  case (2 c)
  then show ?case by auto
next
  case (3 a b cs)
  show ?case
  proof (cases "is_word a")
    case True
    with "3.prems" have b: "is_word b" and p: "paired cs" by simp_all
    note h = "3.IH"(1) [OF True p]
    note e = ng_hyphen_code [OF True b p]
    show ?thesis
    proof (cases "a = CHR ''o'' \<and> b = CHR ''h'' \<and> take 1 cs = ''-''")
      case t: True
      then obtain r where r: "cs = CHR ''-'' # r" by (cases cs) auto
      from h have "paired (ng_hyphen r)" unfolding r by (simp add: paired_marker)
      with t r show ?thesis unfolding e by (simp add: paired_marker)
    next
      case f: False
      from e f have e2: "ng_hyphen (a # b # cs) = a # b # ng_hyphen cs"
        by (simp only: if_False)
      show ?thesis unfolding e2 using True b h by simp
    qed
  next
    case False
    with "3.prems" have p: "paired (b # cs)" by simp
    from False have "a \<noteq> CHR ''o''" by auto
    then have e: "ng_hyphen (a # b # cs) = a # ng_hyphen (b # cs)" by simp
    show ?thesis unfolding e using "3.IH"(2) [OF False p] paired_marker [OF False] by blast
  qed
qed

lemma ng_boundary_code:
  assumes "is_word a" and "is_word b" and "paired cs"
  shows "ng_boundary (a # b # cs) =
           (if a = CHR ''o'' \<and> b = CHR ''h''
               \<and> (take 1 cs = ''#'' \<or> take 1 cs = '' '' \<or> cs = [] \<or> cs = [newline])
            then ''ng'' @ ng_boundary (if cs = [newline] then cs else drop 1 cs)
            else a # b # ng_boundary cs)"
proof -
  have n: "ng_boundary (b # cs) = b # ng_boundary cs"
  proof (cases "b = CHR ''o'' \<and> take 1 cs = ''h''")
    case True
    then obtain r where r: "cs = CHR ''h'' # r" by (cases cs) auto
    with assms(3) obtain w r' where w: "r = w # r'" "is_word w"
      by (auto simp: paired_word)
    then have "w \<noteq> CHR ''#''" "w \<noteq> CHR '' ''" "w \<noteq> newline" by auto
    with True r w show ?thesis by simp
  next
    case False
    then show ?thesis by auto
  qed
  show ?thesis
  proof (cases "a = CHR ''o'' \<and> b = CHR ''h''")
    case True
    have "newline \<noteq> CHR ''#''" "newline \<noteq> CHR '' ''" by (simp_all add: newline_def)
    with True show ?thesis by (cases cs) auto
  next
    case False
    with n show ?thesis by auto
  qed
qed

lemma paired_ng_boundary: "paired s \<Longrightarrow> paired (ng_boundary s)"
proof (induction s rule: paired.induct)
  case 1
  show ?case by simp
next
  case (2 c)
  then show ?case by auto
next
  case (3 a b cs)
  show ?case
  proof (cases "is_word a")
    case True
    with "3.prems" have b: "is_word b" and p: "paired cs" by simp_all
    note h = "3.IH"(1) [OF True p]
    note e = ng_boundary_code [OF True b p]
    show ?thesis
    proof (cases "a = CHR ''o'' \<and> b = CHR ''h''
               \<and> (take 1 cs = ''#'' \<or> take 1 cs = '' '' \<or> cs = [] \<or> cs = [newline])")
      case t: True
      have "paired (ng_boundary (if cs = [newline] then cs else drop 1 cs))"
      proof (cases cs)
        case Nil
        then show ?thesis by simp
      next
        case (Cons x r)
        with t have x: "\<not> is_word x" by auto
        from h x have "paired (ng_boundary r)"
          unfolding Cons by (auto simp: paired_marker split: if_splits)
        with Cons x show ?thesis by (auto simp: paired_marker)
      qed
      with t show ?thesis unfolding e by simp
    next
      case f: False
      from e f have e2: "ng_boundary (a # b # cs) = a # b # ng_boundary cs"
        by (simp only: if_False)
      show ?thesis unfolding e2 using True b h by simp
    qed
  next
    case False
    with "3.prems" have p: "paired (b # cs)" by simp
    from False have "a \<noteq> CHR ''o''" by auto
    then have e: "ng_boundary (a # b # cs) = a # ng_boundary (b # cs)" by simp
    show ?thesis unfolding e using "3.IH"(2) [OF False p] paired_marker [OF False] by blast
  qed
qed

lemma star_hyphen_markers:
  "star_hyphen cs = Some n \<Longrightarrow>
     list_all (\<lambda>x. \<not> is_word x) (take n cs) \<and> list_all (\<lambda>x. \<not> is_word x) (take (Suc n) cs)"
proof (induction cs arbitrary: n)
  case Nil
  then show ?case by simp
next
  case (Cons x xs)
  show ?case
  proof (cases "star_hyphen xs")
    case None
    with Cons.prems show ?thesis by (cases xs) (auto split: if_splits)
  next
    case (Some m)
    with Cons.prems Cons.IH [OF Some] show ?thesis by (auto split: if_splits)
  qed
qed

lemma paired_markers_append: "list_all (\<lambda>x. \<not> is_word x) m \<Longrightarrow> paired (m @ t) = paired t"
  by (induction m) (simp_all add: paired_marker)

lemma paired_drop_markers:
  "list_all (\<lambda>x. \<not> is_word x) (take k s) \<Longrightarrow> paired (drop k s) = paired s"
proof (induction k arbitrary: s)
  case 0
  show ?case by simp
next
  case (Suc k)
  then show ?case by (cases s) (simp_all add: paired_marker)
qed

lemma paired_marker_hyphen: "paired s \<Longrightarrow> paired (marker_hyphen s)"
proof (induction "length s" arbitrary: s rule: less_induct)
  case less
  show ?case
  proof (cases s)
    case Nil
    then show ?thesis by simp
  next
    case (Cons c cs)
    show ?thesis
    proof (cases "is_word c")
      case True
      with less.prems Cons obtain b r where r: "cs = b # r" "is_word b" "paired r"
        by (auto simp: paired_word)
      have "paired (marker_hyphen r)" using less.hyps [of r] r(1,3) Cons by simp
      with True r Cons show ?thesis by simp
    next
      case nw: False
      with less.prems Cons have p: "paired cs" by (simp add: paired_marker)
      show ?thesis
      proof (cases "star_hyphen cs")
        case None
        have "paired (marker_hyphen cs)" using less.hyps [of cs] p Cons by simp
        with nw None Cons show ?thesis by (simp add: paired_marker)
      next
        case (Some n)
        note m = star_hyphen_markers [OF Some]
        from m p have "paired (drop (Suc n) cs)" by (simp add: paired_drop_markers)
        then have h: "paired (marker_hyphen (drop (Suc n) cs))"
          using less.hyps [of "drop (Suc n) cs"] Cons by simp
        from m nw have "list_all (\<lambda>x. \<not> is_word x) (c # take n cs)" by simp
        from paired_markers_append [OF this] h
        have "paired ((c # take n cs) @ marker_hyphen (drop (Suc n) cs))" by blast
        with nw Some Cons show ?thesis by simp
      qed
    qed
  qed
qed

lemma paired_strip_trailing: "paired s \<Longrightarrow> paired (strip_trailing s)"
proof (induction "length s" arbitrary: s rule: less_induct)
  case less
  show ?case
  proof (cases s)
    case Nil
    then show ?thesis by simp
  next
    case (Cons c cs)
    show ?thesis
    proof (cases "is_word c")
      case True
      with less.prems Cons obtain b r where r: "cs = b # r" "is_word b" "paired r"
        by (auto simp: paired_word)
      have "paired (strip_trailing r)" using less.hyps [of r] r(1,3) Cons by simp
      with True r Cons show ?thesis by simp
    next
      case nw: False
      with less.prems Cons have p: "paired cs" by (simp add: paired_marker)
      have "paired (strip_trailing cs)" using less.hyps [of cs] p Cons by simp
      with nw Cons show ?thesis by (simp add: paired_marker)
    qed
  qed
qed

lemma paired_finish: "paired s \<Longrightarrow> paired (finish s)"
  unfolding finish_def
  by (intro paired_strip_leading paired_strip_trailing paired_marker_hyphen paired_ng_boundary
      paired_ng_hyphen paired_elide paired_strip_initial)

lemma tail_ok_tl: "tail_ok (a # t) \<Longrightarrow> tail_ok t"
  by (cases t rule: tail_ok.cases) simp_all

lemma paired_tail_ok: "paired p \<Longrightarrow> p = [] \<or> is_word (last p) \<Longrightarrow> tail_ok p"
proof (induction p rule: paired.induct)
  case 1
  show ?case by simp
next
  case (2 c)
  show ?case by simp
next
  case (3 a b cs)
  show ?case
  proof (cases "is_word a")
    case True
    with "3.prems" have p: "paired cs" "cs = [] \<or> is_word (last cs)" by (auto split: if_splits)
    from "3.IH"(1) [OF True p] True p show ?thesis
      by (cases cs rule: tail_ok.cases) auto
  next
    case False
    with "3.prems" have p: "paired (b # cs)" "is_word (last (b # cs))" by (auto split: if_splits)
    from "3.IH"(2) [OF False p(1)] p show ?thesis
      by (cases cs) auto
  qed
qed

lemma boundary_loop_short: "length rest < 2 \<Longrightarrow> addPhoneBoundary_loop rest acc = Inr acc"
  by (subst addPhoneBoundary_loop.simps) simp

lemma boundary_loop_unit:
  "a \<noteq> CHR ''-'' \<Longrightarrow> a \<noteq> CHR '' '' \<Longrightarrow> a \<noteq> CHR ''#'' \<Longrightarrow>
   addPhoneBoundary_loop (a # b # rest) acc = addPhoneBoundary_loop rest (acc @ [a, b, CHR '',''])"
  by (subst addPhoneBoundary_loop.simps) simp

lemma boundary_loop_marker:
  "m = CHR ''-'' \<or> m = CHR '' '' \<or> m = CHR ''#'' \<Longrightarrow>
   addPhoneBoundary_loop (m # a # b # rest) acc =
     addPhoneBoundary_loop rest ((if m = CHR '' '' then acc else acc @ [m]) @ [a, b, CHR '',''])"
  by (subst addPhoneBoundary_loop.simps) auto

lemma boundary_loop_raises:
  "m = CHR ''-'' \<or> m = CHR '' '' \<or> m = CHR ''#'' \<Longrightarrow>
   addPhoneBoundary_loop [m, a] acc = Inl IndexError"
  by (subst addPhoneBoundary_loop.simps) auto

lemma boundary_loop_result:
  "acc = [] \<or> last acc = CHR '','' \<Longrightarrow>
   (\<exists>r. addPhoneBoundary_loop rest acc = Inr r \<and> (r = [] \<or> last r = CHR '',''))
   \<or> (addPhoneBoundary_loop rest acc = Inl IndexError \<and> \<not> tail_ok rest)"
proof (induction "length rest" arbitrary: rest acc rule: less_induct)
  case less
  show ?case
  proof (cases "length rest < 2")
    case True
    with less.prems show ?thesis by (simp add: boundary_loop_short)
  next
    case False
    then obtain a b t where rest: "rest = a # b # t"
      by (cases rest; cases "tl rest") auto
    show ?thesis
    proof (cases "a = CHR ''-'' \<or> a = CHR '' '' \<or> a = CHR ''#''")
      case m: True
      then have nw: "\<not> is_word a" by auto
      show ?thesis
      proof (cases t)
        case Nil
        with nw show ?thesis unfolding rest by (simp add: boundary_loop_raises [OF m])
      next
        case (Cons c t')
        have d: "tail_ok rest \<Longrightarrow> tail_ok t'"
          unfolding rest Cons by (rule tail_ok_tl [OF tail_ok_tl [OF tail_ok_tl]])
        from less.hyps [of t' "(if a = CHR '' '' then acc else acc @ [a]) @ [b, c, CHR '','']"] d
        show ?thesis unfolding rest Cons boundary_loop_marker [OF m]
          by (auto simp: rest Cons)
      qed
    next
      case u: False
      have d: "tail_ok rest \<Longrightarrow> tail_ok t"
        unfolding rest by (rule tail_ok_tl [OF tail_ok_tl])
      from less.hyps [of t "acc @ [a, b, CHR '','']"] d u
      show ?thesis unfolding rest by (auto simp: boundary_loop_unit rest)
    qed
  qed
qed

lemma tail_ok_phones: "tail_ok (finish (concat (map emitted cs)))"
proof -
  let ?p = "finish (concat (map emitted cs))"
  have "paired ?p" by (intro paired_finish paired_concat)
  moreover from hy_ok_finish [OF hy_ok_concat, of cs] have "?p = [] \<or> is_word (last ?p)"
    by simp
  ultimately show ?thesis by (rule paired_tail_ok)
qed

text \<open>
  C10 as stated fails: not every remainder of fewer than two characters is dropped
  without an error. Where a boundary marker is followed by one last character at the
  loop test (\<open>k0#-\<close>, \<open>-a\<close>) the guard \<open>ipos + 2 <= len(phones)\<close> holds, the marker is
  consumed, and \<open>phones[ipos + 1]\<close> reads past the end: IndexError. A marker in the very
  last position is dropped (\<open>k0-\<close>).
\<close>

theorem addPhoneBoundary_marker_then_one_char:
  "addPhoneBoundary ''k0#-'' = Inl IndexError \<and> addPhoneBoundary ''-a'' = Inl IndexError
   \<and> addPhoneBoundary ''k0-'' = Inr ''k0,''"
  by code_simp

text \<open>
  C10, amended. Whenever fewer than two characters remain at the loop test they are
  dropped: the loop returns what it has accumulated. For every string \<open>s\<close>,
  \<open>addPhoneBoundary\<close> either returns a string of complete units (it is empty or ends
  with the comma that closes a unit) or raises IndexError. On the phone string that
  \<open>graph2phone\<close> returns, for any input \<open>cs\<close>, it returns without error; these are the
  only strings \<open>graph2prono\<close> passes to it. Every code of the tables has two characters
  and \<open>graph2phone\<close> strips the markers at the end, so the last character but one of a
  phone string is never a marker.
\<close>

theorem addPhoneBoundary_drops_remainder:
  "(length rest < 2 \<longrightarrow> addPhoneBoundary_loop rest newphones = Inr newphones)
   \<and> ((\<exists>r. addPhoneBoundary s = Inr r \<and> (r = [] \<or> last r = CHR '',''))
        \<or> addPhoneBoundary s = Inl IndexError)
   \<and> (\<exists>phones r. graph2phone cs = Inr phones \<and> addPhoneBoundary phones = Inr r
        \<and> (r = [] \<or> last r = CHR '',''))"
proof -
  have a: "length rest < 2 \<longrightarrow> addPhoneBoundary_loop rest newphones = Inr newphones"
    by (simp add: boundary_loop_short)
  have b: "(\<exists>r. addPhoneBoundary s = Inr r \<and> (r = [] \<or> last r = CHR '',''))
        \<or> addPhoneBoundary s = Inl IndexError"
    using boundary_loop_result [of "[]" s] by (auto simp: addPhoneBoundary_def)
  let ?p = "finish (concat (map emitted cs))"
  have "\<exists>r. addPhoneBoundary ?p = Inr r \<and> (r = [] \<or> last r = CHR '','')"
    using boundary_loop_result [of "[]" ?p] tail_ok_phones [of cs]
    by (auto simp: addPhoneBoundary_def)
  then have c: "\<exists>phones r. graph2phone cs = Inr phones \<and> addPhoneBoundary phones = Inr r
        \<and> (r = [] \<or> last r = CHR '','')"
    by (simp add: graph2phone_eq)
  from a b c show ?thesis by (intro conjI)
qed

theorem addPhoneBoundary_drops_remainder_witness:
  "length ''a'' < 2 \<and> addPhoneBoundary_loop ''a'' ''k0,'' = Inr ''k0,''
   \<and> addPhoneBoundary ''k0a'' = Inr ''k0,''
   \<and> graph2phone [0xAC00, 0x20, 0xAC01] = Inr ''k0aa#k0aakf''
   \<and> addPhoneBoundary ''k0aa#k0aakf'' = Inr ''k0,aa,#k0,aa,kf,''"
proof -
  have g: "graph2phone [0xAC00, 0x20, 0xAC01] = Inr ''k0aa#k0aakf''" by code_simp
  have p: "addPhoneBoundary ''k0aa#k0aakf'' = Inr ''k0,aa,#k0,aa,kf,''" by code_simp
  have q: "addPhoneBoundary ''k0a'' = Inr ''k0,''" by code_simp
  from addPhoneBoundary_drops_remainder [of "''a''" "''k0,''" "''k0a''" "[0xAC00, 0x20, 0xAC01]"]
  have "addPhoneBoundary_loop ''a'' ''k0,'' = Inr ''k0,''" by simp
  with g p q show ?thesis by simp
qed

subsection \<open>The fixpoint iteration of graph2prono\<close>

lemma compile_hyphen: "compile ''-'' = Inr (Atm (Lit CHR ''-''), 0)"
  by code_simp

lemma sub_hyphen: "sub_loop (Atm (Lit CHR ''-'')) [] pre s False = no_hyphen s"
proof (induction s arbitrary: pre)
  case Nil
  show ?case by (subst sub_loop.simps) (simp add: no_hyphen_def)
next
  case (Cons c s)
  show ?case
    by (subst sub_loop.simps) (use Cons in \<open>auto simp: no_hyphen_def\<close>)
qed

lemma re_sub_hyphen: "re_sub ''-'' [] s = Inr (no_hyphen s)"
  using re_sub_compiled [OF compile_hyphen template_empty, of s] by (simp add: sub_hyphen)

lemma loop_stops:
  assumes "next_prono ri ro p = Inr q" and "no_hyphen p = no_hyphen q"
  shows "graph2prono_loop ri ro p = Some (Inr (no_hyphen q))"
  by (subst graph2prono_loop.simps) (simp add: assms re_sub_hyphen)

lemma loop_goes_on:
  assumes "next_prono ri ro p = Inr q" and "no_hyphen p \<noteq> no_hyphen q"
  shows "graph2prono_loop ri ro p = graph2prono_loop ri ro q"
  by (subst graph2prono_loop.simps) (simp add: assms re_sub_hyphen)

lemma loop_returns_if:
  assumes "prono_after ri ro n p = Some q" and "next_prono ri ro q = Inr q'"
    and "no_hyphen q = no_hyphen q'"
  shows "graph2prono_loop ri ro p = Some (Inr (no_hyphen q'))"
  using assms
proof (induction n arbitrary: p)
  case 0
  then show ?case by (simp add: loop_stops)
next
  case (Suc n)
  from Suc.prems(1) obtain p1 where
    p1: "next_prono ri ro p = Inr p1" "no_hyphen p \<noteq> no_hyphen p1" "prono_after ri ro n p1 = Some q"
    by (auto split: sum.splits if_splits)
  from Suc.IH [OF p1(3) Suc.prems(2,3)] loop_goes_on [OF p1(1,2)]
  show ?case by simp
qed

lemma loop_returns_only_if_aux:
  assumes "graph2prono_loop ri ro p = Some y"
  shows "\<forall>r. y = Inr r \<longrightarrow>
           (\<exists>n q q'. prono_after ri ro n p = Some q \<and> next_prono ri ro q = Inr q'
              \<and> no_hyphen q = no_hyphen q' \<and> r = no_hyphen q')"
proof (rule graph2prono_loop.raw_induct
    [where P = "\<lambda>ri ro p y. \<forall>r. y = Inr r \<longrightarrow>
           (\<exists>n q q'. prono_after ri ro n p = Some q \<and> next_prono ri ro q = Inr q'
              \<and> no_hyphen q = no_hyphen q' \<and> r = no_hyphen q')", OF _ assms])
  fix loop :: "string list \<Rightarrow> string list \<Rightarrow> string \<Rightarrow> string result option"
    and ri ro p y
  assume IH: "\<And>ri ro p y. loop ri ro p = Some y \<Longrightarrow>
      \<forall>r. y = Inr r \<longrightarrow>
           (\<exists>n q q'. prono_after ri ro n p = Some q \<and> next_prono ri ro q = Inr q'
              \<and> no_hyphen q = no_hyphen q' \<and> r = no_hyphen q')"
    and body: "(case next_prono ri ro p of
        Inl e \<Rightarrow> Some (Inl e)
      | Inr prono_new \<Rightarrow>
          (case re_sub ''-'' [] p of
             Inl e \<Rightarrow> Some (Inl e)
           | Inr stripped_prev \<Rightarrow>
               (case re_sub ''-'' [] prono_new of
                  Inl e \<Rightarrow> Some (Inl e)
                | Inr stripped_new \<Rightarrow>
                    if stripped_prev = stripped_new then Some (re_sub ''-'' [] prono_new)
                    else loop ri ro prono_new))) = Some y"
  show "\<forall>r. y = Inr r \<longrightarrow>
           (\<exists>n q q'. prono_after ri ro n p = Some q \<and> next_prono ri ro q = Inr q'
              \<and> no_hyphen q = no_hyphen q' \<and> r = no_hyphen q')"
  proof (intro allI impI)
    fix r
    assume y: "y = Inr r"
    show "\<exists>n q q'. prono_after ri ro n p = Some q \<and> next_prono ri ro q = Inr q'
              \<and> no_hyphen q = no_hyphen q' \<and> r = no_hyphen q'"
    proof (cases "next_prono ri ro p")
      case (Inl e)
      with body y show ?thesis by simp
    next
      case (Inr p1)
      show ?thesis
      proof (cases "no_hyphen p = no_hyphen p1")
        case True
        with Inr body y have "r = no_hyphen p1" by (simp add: re_sub_hyphen)
        with Inr True have "prono_after ri ro 0 p = Some p \<and> next_prono ri ro p = Inr p1
            \<and> no_hyphen p = no_hyphen p1 \<and> r = no_hyphen p1"
          by simp
        then show ?thesis by blast
      next
        case False
        with Inr body have "loop ri ro p1 = Some y" by (simp add: re_sub_hyphen)
        from IH [OF this] y obtain n q q' where
          "prono_after ri ro n p1 = Some q" "next_prono ri ro q = Inr q'"
          "no_hyphen q = no_hyphen q'" "r = no_hyphen q'"
          by blast
        with Inr False have "prono_after ri ro (Suc n) p = Some q \<and> next_prono ri ro q = Inr q'
            \<and> no_hyphen q = no_hyphen q' \<and> r = no_hyphen q'"
          by simp
        then show ?thesis by blast
      qed
    qed
  qed
qed

lemma loop_returns_only_if:
  assumes "graph2prono_loop ri ro p = Some (Inr r)"
  shows "\<exists>n q q'. prono_after ri ro n p = Some q \<and> next_prono ri ro q = Inr q'
           \<and> no_hyphen q = no_hyphen q' \<and> r = no_hyphen q'"
  using loop_returns_only_if_aux [OF assms] by blast

text \<open>
  C2. The loop of \<open>graph2prono\<close> returns exactly when some pass gives a result that
  equals its predecessor once the hyphens are stripped from both (all earlier passes
  having given a different one), and what it returns is that last result with the
  hyphens stripped.
\<close>

theorem graph2prono_loop_returns_iff:
  "graph2prono_loop rin rout prono = Some (Inr r) \<longleftrightarrow>
     (\<exists>n prono_prev prono_new.
        prono_after rin rout n prono = Some prono_prev
        \<and> next_prono rin rout prono_prev = Inr prono_new
        \<and> no_hyphen prono_prev = no_hyphen prono_new
        \<and> r = no_hyphen prono_new)"
  using loop_returns_if loop_returns_only_if by blast

subsection \<open>Runs of runKoG2P on concrete inputs\<close>

lemma first_prono_steps:
  assumes "graph2phone g = Inr romanized"
    and "addPhoneBoundary romanized = Inr romanized_bd"
    and "phone2prono romanized_bd ri ro = Inr p1"
    and "re_sub '','' '' '' p1 = Inr p2"
    and "re_sub '' $'' [] p2 = Inr p3"
    and "re_sub ''#'' ''-'' p3 = Inr p4"
    and "re_sub ''-+'' ''-'' p4 = Inr prono"
  shows "first_prono g ri ro = Inr prono"
  using assms by (simp add: first_prono_def bind_def)

lemma next_prono_steps:
  assumes "re_sub '' '' '','' (prono_prev @ '','') = Inr phones"
    and "phone2prono phones ri ro = Inr p1"
    and "re_sub '','' '' '' p1 = Inr p2"
    and "re_sub '' $'' [] p2 = Inr prono_new"
  shows "next_prono ri ro prono_prev = Inr prono_new"
  using assms by (simp add: next_prono_def bind_def)

lemma runKoG2P_stops:
  assumes "first_prono g rule_in rule_out = Inr p" and "next_prono rule_in rule_out p = Inr q"
    and "no_hyphen p = no_hyphen q"
  shows "runKoG2P g = Some (Inr (no_hyphen q))"
  using assms loop_stops [OF assms(2,3)] by (simp add: runKoG2P_def graph2prono_def)

lemma pass_on_empty: "phone2prono [] rule_in rule_out = Inr []"
  by code_simp

lemma pass_on_comma: "phone2prono '','' rule_in rule_out = Inr '',''"
  by code_simp

lemma first_prono_empty:
  assumes "graph2phone g = Inr []"
  shows "first_prono g rule_in rule_out = Inr []"
proof (rule first_prono_steps [OF assms _ pass_on_empty])
  show "addPhoneBoundary [] = Inr []" by code_simp
  show "re_sub '','' '' '' [] = Inr []" by code_simp
  show "re_sub '' $'' [] [] = Inr []" by code_simp
  show "re_sub ''#'' ''-'' [] = Inr []" by code_simp
  show "re_sub ''-+'' ''-'' [] = Inr []" by code_simp
qed

lemma next_prono_empty: "next_prono rule_in rule_out [] = Inr []"
proof (rule next_prono_steps [OF _ pass_on_comma])
  show "re_sub '' '' '','' ([] @ '','') = Inr '',''" by code_simp
  show "re_sub '','' '' '' '','' = Inr '' ''" by code_simp
  show "re_sub '' $'' [] '' '' = Inr []" by code_simp
qed

lemma markers_strip_initial: "set s \<subseteq> {CHR ''#''} \<Longrightarrow> strip_initial s = s"
  by (cases s) (auto simp: strip_initial_def)

lemma markers_elide: "set s \<subseteq> {CHR ''#''} \<Longrightarrow> elide rep s = s"
  by (induction s) auto

lemma markers_ng_hyphen: "set s \<subseteq> {CHR ''#''} \<Longrightarrow> ng_hyphen s = s"
  by (induction s) auto

lemma markers_ng_boundary: "set s \<subseteq> {CHR ''#''} \<Longrightarrow> ng_boundary s = s"
  by (induction s) auto

lemma markers_star_hyphen: "set s \<subseteq> {CHR ''#''} \<Longrightarrow> star_hyphen s = None"
  by (induction s) auto

lemma markers_marker_hyphen: "set s \<subseteq> {CHR ''#''} \<Longrightarrow> marker_hyphen s = s"
  by (induction s) (auto simp: markers_star_hyphen)

lemma markers_strip_trailing: "set s \<subseteq> {CHR ''#''} \<Longrightarrow> strip_trailing s = []"
  by (cases s) (auto simp: list_all_iff)

lemma markers_finish: "set s \<subseteq> {CHR ''#''} \<Longrightarrow> finish s = []"
  by (simp add: finish_def markers_strip_initial markers_elide markers_ng_hyphen
      markers_ng_boundary markers_marker_hyphen markers_strip_trailing strip_leading_def)

lemma markers_emitted:
  "list_all (\<lambda>c. \<not> isHangul c) cs \<Longrightarrow> set (concat (map emitted cs)) \<subseteq> {CHR ''#''}"
  by (induction cs) (auto simp: emitted_def)

text \<open>
  C9. For every input without a Hangul syllable \<open>runKoG2P\<close> (the spec's \<open>convert\<close>)
  returns the empty string: the empty input, and every input made of spaces or of other
  whitespace only. Such an input gives a phone string of markers \<open>#\<close> alone, which
  \<open>re.sub('\W+$', '', phones)\<close> empties, and the first pass of the iteration leaves the
  empty string as it is.
\<close>

theorem runKoG2P_without_hangul:
  assumes "list_all (\<lambda>c. \<not> isHangul c) cs"
  shows "runKoG2P cs = Some (Inr [])"
proof -
  from markers_finish [OF markers_emitted [OF assms]]
  have g: "graph2phone cs = Inr []" by (simp add: graph2phone_eq)
  have n: "no_hyphen [] = no_hyphen []" by simp
  from runKoG2P_stops [OF first_prono_empty [OF g] next_prono_empty n]
  show ?thesis by (simp add: no_hyphen_def)
qed

theorem runKoG2P_empty_and_spaces:
  "runKoG2P [] = Some (Inr [])
   \<and> list_all (\<lambda>c. \<not> isHangul c) [32, 32, 32] \<and> runKoG2P [32, 32, 32] = Some (Inr [])
   \<and> list_all (\<lambda>c. \<not> isHangul c) [9, 10, 32] \<and> runKoG2P [9, 10, 32] = Some (Inr [])"
  using runKoG2P_without_hangul [of "[]"] runKoG2P_without_hangul [of "[32, 32, 32]"]
    runKoG2P_without_hangul [of "[9, 10, 32]"]
  by (simp add: isHangul_def)

lemma pass_on_three_markers:
  "phone2prono ''k0,aa,###,k0,aa,'' rule_in rule_out = Inr ''k0,aa,###,k0,aa,''"
  by code_simp

lemma pass_on_lone_hyphen:
  "phone2prono ''k0,aa,-,k0,aa,'' rule_in rule_out = Inr ''k0,aa,-,k0,aa,''"
  by code_simp

lemma first_prono_three_spaces:
  "first_prono [0xAC00, 0x20, 0x20, 0x20, 0xAC00] rule_in rule_out = Inr ''k0 aa - k0 aa''"
proof (rule first_prono_steps [OF _ _ pass_on_three_markers])
  show "graph2phone [0xAC00, 0x20, 0x20, 0x20, 0xAC00] = Inr ''k0aa###k0aa''" by code_simp
  show "addPhoneBoundary ''k0aa###k0aa'' = Inr ''k0,aa,###,k0,aa,''" by code_simp
  show "re_sub '','' '' '' ''k0,aa,###,k0,aa,'' = Inr ''k0 aa ### k0 aa ''" by code_simp
  show "re_sub '' $'' [] ''k0 aa ### k0 aa '' = Inr ''k0 aa ### k0 aa''" by code_simp
  show "re_sub ''#'' ''-'' ''k0 aa ### k0 aa'' = Inr ''k0 aa --- k0 aa''" by code_simp
  show "re_sub ''-+'' ''-'' ''k0 aa --- k0 aa'' = Inr ''k0 aa - k0 aa''" by code_simp
qed

lemma next_prono_three_spaces:
  "next_prono rule_in rule_out ''k0 aa - k0 aa'' = Inr ''k0 aa - k0 aa''"
proof (rule next_prono_steps [OF _ pass_on_lone_hyphen])
  show "re_sub '' '' '','' (''k0 aa - k0 aa'' @ '','') = Inr ''k0,aa,-,k0,aa,''" by code_simp
  show "re_sub '','' '' '' ''k0,aa,-,k0,aa,'' = Inr ''k0 aa - k0 aa ''" by code_simp
  show "re_sub '' $'' [] ''k0 aa - k0 aa '' = Inr ''k0 aa - k0 aa''" by code_simp
qed

text \<open>
  C4. For two syllables with three spaces between them \<open>runKoG2P\<close> returns a string
  with two spaces in a row between its tokens: the three markers \<open>###\<close> pass
  \<open>addPhoneBoundary\<close> as one token, become a lone hyphen, and the final stripping of the
  hyphens leaves the two spaces around it.
\<close>

theorem runKoG2P_three_spaces_double_space:
  "runKoG2P [0xAC00, 0x20, 0x20, 0x20, 0xAC00] = Some (Inr ''k0 aa  k0 aa'')"
proof -
  have n: "no_hyphen ''k0 aa - k0 aa'' = no_hyphen ''k0 aa - k0 aa''" by simp
  from runKoG2P_stops [OF first_prono_three_spaces next_prono_three_spaces n]
  show ?thesis by (simp add: no_hyphen_def)
qed

end
